theory Spec2Isabelle
  imports Main "HOL-Library.AList"
begin

section \<open>Objects, store and outcomes\<close>

text \<open>
  The table of \<^verbatim>\<open>pygama/lgdo/table.py\<close> holds references to its column objects
  (``no copy is performed, the objects are used directly''), and \<^verbatim>\<open>resize\<close> and
  \<^verbatim>\<open>join\<close> mutate objects that several tables may share.  Objects therefore live in
  a store, addressed by their identity; a table's columns are an ordered dictionary from
  names to addresses.
\<close>

type_synonym addr = nat

datatype error = TypeError | ValueError | KeyError | AttributeError | RecursionError | OverflowError

text \<open>
  The attributes of a \<^verbatim>\<open>Table\<close>: \<^verbatim>\<open>size\<close> (an integer, or \<^verbatim>\<open>None\<close>),
  \<^verbatim>\<open>loc\<close>, and the dictionary inherited from \<^verbatim>\<open>Struct\<close>, in insertion order.
\<close>

record table =
  size_attr :: "int option"
  loc :: int
  cols :: "(string \<times> addr) list"

text \<open>
  Modelled from the spec: the column classes \<^verbatim>\<open>Array\<close>, \<^verbatim>\<open>VectorOfVectors\<close> and
  \<^verbatim>\<open>Scalar\<close> (\<^verbatim>\<open>pygama.lgdo.array\<close>, \<^verbatim>\<open>.vectorofvectors\<close>, \<^verbatim>\<open>.scalar\<close>) are
  imported by \<^verbatim>\<open>table.py\<close> and are not part of the sources at hand.  The spec names
  the columns of a table as ``arrays, sub-tables, nested variable-length arrays'' ``of equal
  length''.  An \<^verbatim>\<open>Array\<close> carries its \<^verbatim>\<open>nda\<close> (here a list of integers), a
  \<^verbatim>\<open>VectorOfVectors\<close> a list of vectors and no \<^verbatim>\<open>nda\<close>; both have a length and a
  \<^verbatim>\<open>resize\<close>.  A \<^verbatim>\<open>Scalar\<close> has neither \<^verbatim>\<open>__len__\<close> nor \<^verbatim>\<open>nda\<close>.
\<close>

datatype pyobj =
    Array "int list"
  | VectorOfVectors "int list list"
  | Scalar
  | Table table

datatype warning =
    ResizeWarning string int int
  | LocWarning int int

text \<open>
  The program state: the store, the warnings written to the logger so far, and the next
  unused address (objects created by \<^verbatim>\<open>Table(...)\<close> and \<^verbatim>\<open>Array(...)\<close> are placed there).
  What the store holds at an address that is not in use is immaterial.
\<close>

record state =
  objs :: "addr \<Rightarrow> pyobj"
  logged :: "warning list"
  fresh :: addr

text \<open>A call either raises, or returns a value; both leave a state behind.\<close>

datatype 'a outcome = Raise error state | Return 'a state

definition alloc :: "state \<Rightarrow> pyobj \<Rightarrow> addr \<times> state" where
  "alloc s ob = (fresh s, s\<lparr>objs := (objs s)(fresh s := ob), fresh := Suc (fresh s)\<rparr>)"

definition warn :: "warning \<Rightarrow> state \<Rightarrow> state" where
  "warn w s = s\<lparr>logged := logged s @ [w]\<rparr>"

section \<open>Lengths and attributes of objects\<close>

text \<open>
  Modelled from the spec: \<^verbatim>\<open>Array.resize\<close> and \<^verbatim>\<open>VectorOfVectors.resize\<close> are not
  part of the sources at hand; a resize brings the object to the requested length
  (``resize bookkeeping'', ``every column has equal length''), keeping the leading entries
  and padding with zeros (empty vectors).  A length cannot be negative: a negative request
  raises \<^verbatim>\<open>ValueError\<close>.
\<close>

definition nd_resize :: "int list \<Rightarrow> nat \<Rightarrow> int list" where
  "nd_resize xs n = take n xs @ replicate (n - length xs) 0"

definition vov_resize :: "int list list \<Rightarrow> nat \<Rightarrow> int list list" where
  "vov_resize vs n = take n vs @ replicate (n - length vs) []"

text \<open>
  What \<^verbatim>\<open>obj.__len__()\<close> returns: \<^verbatim>\<open>None\<close> of the outer option when the object has no
  such method; for a table, lines 86--88 return the \<^verbatim>\<open>size\<close> attribute as it is, which
  may be \<^verbatim>\<open>None\<close>.
\<close>

fun dunder_len :: "pyobj \<Rightarrow> int option option" where
  "dunder_len (Array xs) = Some (Some (int (length xs)))"
| "dunder_len (VectorOfVectors vs) = Some (Some (int (length vs)))"
| "dunder_len Scalar = None"
| "dunder_len (Table t) = Some (size_attr t)"

definition hasattr_len :: "pyobj \<Rightarrow> bool" where
  "hasattr_len ob = (dunder_len ob \<noteq> None)"

text \<open>
  \<^verbatim>\<open>sys.maxsize\<close>, the largest value that \<^verbatim>\<open>len\<close> can return, as it is on the 64-bit
  platforms.
\<close>

definition maxsize :: int where
  "maxsize = 2 ^ 63 - 1"

definition valid_len :: "int \<Rightarrow> bool" where
  "valid_len n = (0 \<le> n \<and> n \<le> maxsize)"

text \<open>
  Python's built-in \<^verbatim>\<open>len(obj)\<close>: \<^verbatim>\<open>TypeError\<close> when there is no \<^verbatim>\<open>__len__\<close> or when
  it returns a non-integer; \<^verbatim>\<open>OverflowError\<close> when the integer it returns does not fit
  the platform's index type (above \<^verbatim>\<open>sys.maxsize\<close>, or below \<^verbatim>\<open>-sys.maxsize - 1\<close>);
  \<^verbatim>\<open>ValueError\<close> when it is negative.
\<close>

definition py_len :: "pyobj \<Rightarrow> error + int" where
  "py_len ob =
     (case dunder_len ob of
        None \<Rightarrow> Inl TypeError
      | Some None \<Rightarrow> Inl TypeError
      | Some (Some n) \<Rightarrow>
          if n > maxsize \<or> n < - maxsize - 1 then Inl OverflowError
          else if n < 0 then Inl ValueError
          else Inr n)"

fun nda :: "pyobj \<Rightarrow> int list option" where
  "nda (Array xs) = Some xs"
| "nda _ = None"

section \<open>The dictionary of a Struct\<close>

text \<open>
  Modelled from the spec: \<^verbatim>\<open>Struct\<close> (\<^verbatim>\<open>pygama.lgdo.struct\<close>), the base class of
  \<^verbatim>\<open>Table\<close>, is not part of the sources at hand.  It is a Python dictionary
  (``dictionary field management''): its constructor stores the entries of \<^verbatim>\<open>obj_dict\<close>,
  \<^verbatim>\<open>add_field\<close> assigns \<^verbatim>\<open>self[name] = obj\<close>.  An assignment keeps the position of a
  key that is present and appends a new key, which is what \<^const>\<open>AList.update\<close> does.
\<close>

definition dict_update :: "(string \<times> addr) list \<Rightarrow> (string \<times> addr) list \<Rightarrow> (string \<times> addr) list" where
  "dict_update d kvs = fold (\<lambda>(k, v) d'. AList.update k v d') kvs d"

definition keys :: "table \<Rightarrow> string list" where
  "keys t = map fst (cols t)"

definition getitem :: "state \<Rightarrow> addr \<Rightarrow> string \<Rightarrow> addr option" where
  "getitem s tb name = (case objs s tb of Table t \<Rightarrow> map_of (cols t) name | _ \<Rightarrow> None)"

definition struct_add_field :: "state \<Rightarrow> addr \<Rightarrow> string \<Rightarrow> addr \<Rightarrow> state" where
  "struct_add_field s self name ob =
     (case objs s self of
        Table t \<Rightarrow> s\<lparr>objs := (objs s)(self := Table (t\<lparr>cols := AList.update name ob (cols t)\<rparr>))\<rparr>
      | _ \<Rightarrow> s)"

definition set_size :: "state \<Rightarrow> addr \<Rightarrow> int option \<Rightarrow> state" where
  "set_size s self n =
     (case objs s self of
        Table t \<Rightarrow> s\<lparr>objs := (objs s)(self := Table (t\<lparr>size_attr := n\<rparr>))\<rparr>
      | _ \<Rightarrow> s)"

definition set_loc :: "state \<Rightarrow> addr \<Rightarrow> int \<Rightarrow> state" where
  "set_loc s self l =
     (case objs s self of
        Table t \<Rightarrow> s\<lparr>objs := (objs s)(self := Table (t\<lparr>loc := l\<rparr>))\<rparr>
      | _ \<Rightarrow> s)"

section \<open>Table.resize\<close>

text \<open>
  \<^verbatim>\<open>obj.resize(new_size)\<close> of lines 101--104, by the class of the object.  For a
  sub-table it is \<^verbatim>\<open>Table.resize\<close> again, passed as \<open>sub\<close>, with \<^verbatim>\<open>do_warn\<close> at its
  default \<^verbatim>\<open>False\<close>.
\<close>

definition obj_resize ::
  "(state \<Rightarrow> addr \<Rightarrow> int option \<Rightarrow> bool \<Rightarrow> unit outcome) \<Rightarrow> state \<Rightarrow> addr \<Rightarrow> int \<Rightarrow> unit outcome" where
  "obj_resize sub s a n =
     (case objs s a of
        Array xs \<Rightarrow>
          if n < 0 then Raise ValueError s
          else Return () (s\<lparr>objs := (objs s)(a := Array (nd_resize xs (nat n)))\<rparr>)
      | VectorOfVectors vs \<Rightarrow>
          if n < 0 then Raise ValueError s
          else Return () (s\<lparr>objs := (objs s)(a := VectorOfVectors (vov_resize vs (nat n)))\<rparr>)
      | Scalar \<Rightarrow> Raise AttributeError s
      | Table t \<Rightarrow> sub s a (Some n) False)"

text \<open>
  The loop of lines 92--104 over \<^verbatim>\<open>self.items()\<close>; it returns the final value of the
  local variable \<^verbatim>\<open>new_size\<close>.
\<close>

fun resize_fields ::
  "(state \<Rightarrow> addr \<Rightarrow> int option \<Rightarrow> bool \<Rightarrow> unit outcome) \<Rightarrow> (string \<times> addr) list \<Rightarrow>
   state \<Rightarrow> int option \<Rightarrow> bool \<Rightarrow> (int option) outcome" where
  "resize_fields sub [] s new_size do_warn = Return new_size s"
| "resize_fields sub ((field, a) # rest) s new_size do_warn =
     (case py_len (objs s a) of
        Inl e \<Rightarrow> Raise e s
      | Inr l \<Rightarrow>
          (case new_size of
             None \<Rightarrow> resize_fields sub rest s (Some l) do_warn
           | Some n \<Rightarrow>
               if l \<noteq> n then
                 (case obj_resize sub (if do_warn then warn (ResizeWarning field l n) s else s) a n of
                    Raise e s' \<Rightarrow> Raise e s'
                  | Return _ s' \<Rightarrow> resize_fields sub rest s' (Some n) do_warn)
               else resize_fields sub rest s (Some n) do_warn))"

text \<open>
  \<^verbatim>\<open>Table.resize\<close>, lines 90--105.  The first argument is the depth of call stack still
  available: a table may (directly or through its columns) contain itself, and the
  interpreter ends the recursion into sub-tables with \<^verbatim>\<open>RecursionError\<close>.
\<close>

primrec resize :: "nat \<Rightarrow> state \<Rightarrow> addr \<Rightarrow> int option \<Rightarrow> bool \<Rightarrow> unit outcome" where
  "resize 0 s self new_size do_warn = Raise RecursionError s"
| "resize (Suc d) s self new_size do_warn =
     (case objs s self of
        Table t \<Rightarrow>
          (case resize_fields (resize d) (cols t) s new_size do_warn of
             Raise e s' \<Rightarrow> Raise e s'
           | Return n s' \<Rightarrow> Return () (set_size s' self n))
      | _ \<Rightarrow> Raise AttributeError s)"

section \<open>Construction and the row cursor\<close>

text \<open>
  \<^verbatim>\<open>Table.__init__\<close>, lines 66--80, on the object \<open>self\<close> under construction.
  \<^verbatim>\<open>col_dict\<close> is \<^verbatim>\<open>None\<close> or a dictionary; \<^verbatim>\<open>attrs\<close> plays no part in what
  follows and is left out.
\<close>

definition init :: "nat \<Rightarrow> state \<Rightarrow> addr \<Rightarrow> int option \<Rightarrow> (string \<times> addr) list option \<Rightarrow> unit outcome" where
  "init d s self size_arg col_dict =
     (let s0 = s\<lparr>objs := (objs s)(self := Table \<lparr>size_attr = None, loc = 0,
                  cols = dict_update [] (case col_dict of None \<Rightarrow> [] | Some kvs \<Rightarrow> kvs)\<rparr>)\<rparr>
      in case col_dict of
           Some (kv # kvs) \<Rightarrow>
             (case resize d s0 self size_arg (size_arg = None) of
                Raise e s' \<Rightarrow> Raise e s'
              | Return _ s' \<Rightarrow> Return () (set_loc s' self 0))
         | _ \<Rightarrow> Return () (set_loc (set_size s0 self (Some (case size_arg of None \<Rightarrow> 1024 | Some n \<Rightarrow> n))) self 0))"

text \<open>The expression \<^verbatim>\<open>Table(size_arg, col_dict)\<close>: a new object, then \<^verbatim>\<open>__init__\<close>.\<close>

definition new_table :: "nat \<Rightarrow> state \<Rightarrow> int option \<Rightarrow> (string \<times> addr) list option \<Rightarrow> addr outcome" where
  "new_table d s size_arg col_dict =
     (case init d (s\<lparr>fresh := Suc (fresh s)\<rparr>) (fresh s) size_arg col_dict of
        Raise e s' \<Rightarrow> Raise e s'
      | Return _ s' \<Rightarrow> Return (fresh s) s')"

text \<open>\<^verbatim>\<open>Table.__len__\<close>, lines 86--88: the \<^verbatim>\<open>size\<close> attribute, whatever it holds.\<close>

definition len_method :: "table \<Rightarrow> int option" where
  "len_method t = size_attr t"

definition push_row :: "state \<Rightarrow> addr \<Rightarrow> unit outcome" where
  "push_row s self =
     (case objs s self of
        Table t \<Rightarrow> Return () (set_loc s self (loc t + 1))
      | _ \<Rightarrow> Raise AttributeError s)"

text \<open>
  \<^verbatim>\<open>is_full\<close>, lines 110--111: \<^verbatim>\<open>self.loc >= self.size\<close>; comparing an integer with
  \<^verbatim>\<open>None\<close> raises \<^verbatim>\<open>TypeError\<close>.
\<close>

definition is_full :: "state \<Rightarrow> addr \<Rightarrow> bool outcome" where
  "is_full s self =
     (case objs s self of
        Table t \<Rightarrow>
          (case size_attr t of
             None \<Rightarrow> Raise TypeError s
           | Some n \<Rightarrow> Return (loc t \<ge> n) s)
      | _ \<Rightarrow> Raise AttributeError s)"

definition clear :: "state \<Rightarrow> addr \<Rightarrow> unit outcome" where
  "clear s self =
     (case objs s self of
        Table t \<Rightarrow> Return () (set_loc s self 0)
      | _ \<Rightarrow> Raise AttributeError s)"

section \<open>Adding and joining columns\<close>

text \<open>
  \<^verbatim>\<open>add_field\<close>, lines 116--144.  \<^verbatim>\<open>do_warn\<close> is accepted and not used: the call of
  \<^verbatim>\<open>resize\<close> on line 144 leaves \<^verbatim>\<open>do_warn\<close> at its default.
\<close>

definition add_field :: "nat \<Rightarrow> state \<Rightarrow> addr \<Rightarrow> string \<Rightarrow> addr \<Rightarrow> bool \<Rightarrow> bool \<Rightarrow> unit outcome" where
  "add_field d s self name ob use_obj_size do_warn =
     (if \<not> hasattr_len (objs s ob) then Raise TypeError s
      else
        case objs s self of
          Table t \<Rightarrow>
            (let s1 = struct_add_field s self name ob in
             case py_len (objs s1 ob) of
               Inl e \<Rightarrow> Raise e s1
             | Inr l \<Rightarrow>
                 if size_attr t \<noteq> Some l
                 then resize d s1 self (if use_obj_size then Some l else size_attr t) False
                 else Return () s1)
        | _ \<Rightarrow> Raise AttributeError s)"

definition add_column :: "nat \<Rightarrow> state \<Rightarrow> addr \<Rightarrow> string \<Rightarrow> addr \<Rightarrow> bool \<Rightarrow> bool \<Rightarrow> unit outcome" where
  "add_column d s self name ob use_obj_size do_warn = add_field d s self name ob use_obj_size do_warn"

text \<open>The loop of lines 183--184; \<^verbatim>\<open>other_table[name]\<close> raises \<^verbatim>\<open>KeyError\<close> on a missing name.\<close>

fun join_loop :: "nat \<Rightarrow> state \<Rightarrow> addr \<Rightarrow> addr \<Rightarrow> string list \<Rightarrow> bool \<Rightarrow> unit outcome" where
  "join_loop d s self other [] do_warn = Return () s"
| "join_loop d s self other (name # rest) do_warn =
     (case getitem s other name of
        None \<Rightarrow> Raise KeyError s
      | Some a \<Rightarrow>
          (case add_column d s self name a False do_warn of
             Raise e s' \<Rightarrow> Raise e s'
           | Return _ s' \<Rightarrow> join_loop d s' self other rest do_warn))"

definition join :: "nat \<Rightarrow> state \<Rightarrow> addr \<Rightarrow> addr \<Rightarrow> string list option \<Rightarrow> bool \<Rightarrow> unit outcome" where
  "join d s self other cols_arg do_warn =
     (case (objs s self, objs s other) of
        (Table t, Table u) \<Rightarrow>
          join_loop d
            (if loc u \<noteq> loc t \<and> do_warn then warn (LocWarning (loc u) (loc t)) s else s)
            self other
            (case cols_arg of None \<Rightarrow> keys u | Some names \<Rightarrow> names)
            do_warn
      | _ \<Rightarrow> Raise AttributeError s)"

section \<open>Data frames and eval\<close>

text \<open>
  \<^verbatim>\<open>pandas\<close> is an external library.  A data frame is modelled as the ordered
  association of column names to columns of cells; a cell holds a value, or \<^verbatim>\<open>NaN\<close>
  (\<open>None\<close>).  The number of rows of a frame (the length of its index) is the length of
  its columns, and 0 for the frame without columns that \<^verbatim>\<open>pd.DataFrame()\<close> creates.
  The \<^verbatim>\<open>copy\<close> flag decides about sharing of memory and not about values, and is left
  out.
\<close>

type_synonym dataframe = "(string \<times> int option list) list"

definition df_rows :: "dataframe \<Rightarrow> nat" where
  "df_rows df = (case df of [] \<Rightarrow> 0 | (k, ys) # rest \<Rightarrow> length ys)"

text \<open>
  The assignment \<^verbatim>\<open>df[col] = nda\<close> of a one-dimensional array, as \<^verbatim>\<open>pandas\<close> performs it.
  A frame without rows takes its index from a value that is not empty, and fills the
  columns that it has already (all of them empty) with \<^verbatim>\<open>NaN\<close>.  Otherwise a value whose
  length is not the number of rows is refused with \<^verbatim>\<open>ValueError\<close>
  (``Length of values does not match length of index'').
\<close>

definition df_setitem :: "dataframe \<Rightarrow> string \<Rightarrow> int list \<Rightarrow> error + dataframe" where
  "df_setitem df col xs =
     (if df_rows df = 0 \<and> 0 < length xs
      then Inr (AList.update col (map Some xs) (map (\<lambda>(k, ys). (k, replicate (length xs) None)) df))
      else if length xs \<noteq> df_rows df then Inl ValueError
      else Inr (AList.update col (map Some xs) df))"

fun get_dataframe_loop :: "state \<Rightarrow> addr \<Rightarrow> string list \<Rightarrow> dataframe \<Rightarrow> dataframe outcome" where
  "get_dataframe_loop s self [] df = Return df s"
| "get_dataframe_loop s self (col # rest) df =
     (case getitem s self col of
        None \<Rightarrow> Raise KeyError s
      | Some a \<Rightarrow>
          (case nda (objs s a) of
             None \<Rightarrow> Raise ValueError s
           | Some xs \<Rightarrow>
               (case df_setitem df col xs of
                  Inl e \<Rightarrow> Raise e s
                | Inr df' \<Rightarrow> get_dataframe_loop s self rest df')))"

definition get_dataframe :: "state \<Rightarrow> addr \<Rightarrow> string list option \<Rightarrow> dataframe outcome" where
  "get_dataframe s self cols_arg =
     (case objs s self of
        Table t \<Rightarrow> get_dataframe_loop s self (case cols_arg of None \<Rightarrow> keys t | Some names \<Rightarrow> names) []
      | _ \<Rightarrow> Raise AttributeError s)"

text \<open>
  One block of \<^verbatim>\<open>expr_config\<close>: the \<^verbatim>\<open>expression\<close> and the optional
  \<^verbatim>\<open>parameters\<close>.  \<^verbatim>\<open>DataFrame.eval\<close> is the external engine; it is a parameter
  \<open>engine\<close> of the model, which receives the frame, the string
  \<^verbatim>\<open>"{out_var} = {expression}"\<close> and \<^verbatim>\<open>local_dict\<close>, and either raises or gives the
  frame after the in-place evaluation together with the values of its target column, as
  \<^verbatim>\<open>df[out_var].to_numpy()\<close> on line 271 reads them.
\<close>

record expr_spec =
  expression :: string
  parameters :: "(string \<times> string) list option"

type_synonym engine =
  "dataframe \<Rightarrow> string \<Rightarrow> (string \<times> string) list option \<Rightarrow> error + dataframe \<times> int list"

fun eval_loop :: "engine \<Rightarrow> nat \<Rightarrow> state \<Rightarrow> addr \<Rightarrow> dataframe \<Rightarrow> (string \<times> expr_spec) list \<Rightarrow> addr outcome" where
  "eval_loop engine d s out_tbl df [] = Return out_tbl s"
| "eval_loop engine d s out_tbl df ((out_var, spec) # rest) =
     (case engine df (out_var @ '' = '' @ expression spec) (parameters spec) of
        Inl e \<Rightarrow> Raise e s
      | Inr (df', xs) \<Rightarrow>
          (case alloc s (Array xs) of
             (arr, s1) \<Rightarrow>
               (case add_column d s1 out_tbl out_var arr False True of
                  Raise e s2 \<Rightarrow> Raise e s2
                | Return _ s2 \<Rightarrow> eval_loop engine d s2 out_tbl df' rest)))"

definition eval :: "engine \<Rightarrow> nat \<Rightarrow> state \<Rightarrow> addr \<Rightarrow> (string \<times> expr_spec) list \<Rightarrow> addr outcome" where
  "eval engine d s self expr_config =
     (case get_dataframe s self None of
        Raise e s' \<Rightarrow> Raise e s'
      | Return df s1 \<Rightarrow>
          (case objs s1 self of
             Table t \<Rightarrow>
               (case new_table d s1 (size_attr t) None of
                  Raise e s2 \<Rightarrow> Raise e s2
                | Return out_tbl s2 \<Rightarrow> eval_loop engine d s2 out_tbl df expr_config)
           | _ \<Rightarrow> Raise AttributeError s1))"

section \<open>Predicates used in the statements\<close>

text \<open>The state that a call leaves behind, whether it raised or returned.\<close>

definition final :: "'a outcome \<Rightarrow> state" where
  "final r = (case r of Raise e s \<Rightarrow> s | Return x s \<Rightarrow> s)"

text \<open>
  \<open>resized_to n ob ob'\<close>: \<open>ob'\<close> is \<open>ob\<close> after \<^verbatim>\<open>ob.resize(n)\<close> has taken effect on it.
\<close>

definition resized_to :: "int \<Rightarrow> pyobj \<Rightarrow> pyobj \<Rightarrow> bool" where
  "resized_to n ob ob' =
     (case ob of
        Array xs \<Rightarrow> 0 \<le> n \<and> ob' = Array (nd_resize xs (nat n))
      | VectorOfVectors vs \<Rightarrow> 0 \<le> n \<and> ob' = VectorOfVectors (vov_resize vs (nat n))
      | Scalar \<Rightarrow> False
      | Table t \<Rightarrow> ob' = Table (t\<lparr>size_attr := Some n\<rparr>))"

text \<open>The columns of an object: those of a table, none for any other object.\<close>

definition cols_of :: "pyobj \<Rightarrow> (string \<times> addr) list" where
  "cols_of ob = (case ob of Table t \<Rightarrow> cols t | _ \<Rightarrow> [])"

text \<open>
  \<open>resizes n h h'\<close>: the store \<open>h'\<close> differs from \<open>h\<close> only in objects that were resized to
  \<open>n\<close>; a table that was resized has all its columns at length \<open>n\<close>.
\<close>

definition resizes :: "int \<Rightarrow> (addr \<Rightarrow> pyobj) \<Rightarrow> (addr \<Rightarrow> pyobj) \<Rightarrow> bool" where
  "resizes n h h' =
     (\<forall>a. h' a = h a \<or>
          (resized_to n (h a) (h' a) \<and>
           (\<forall>c \<in> snd ` set (cols_of (h a)). dunder_len (h' c) = Some (Some n))))"

text \<open>
  \<open>resize_spec n f\<close>: what is proved of \<^verbatim>\<open>Table.resize\<close> for a request \<open>n\<close>, as a property
  of the function \<open>f\<close> that the loop calls for sub-tables.
\<close>

definition resize_spec :: "int \<Rightarrow> (state \<Rightarrow> addr \<Rightarrow> int option \<Rightarrow> bool \<Rightarrow> unit outcome) \<Rightarrow> bool" where
  "resize_spec n f =
     (\<forall>s a w.
        resizes n (objs s) (objs (final (f s a (Some n) w))) \<and>
        fresh (final (f s a (Some n) w)) = fresh s \<and>
        (\<not> w \<longrightarrow> logged (final (f s a (Some n) w)) = logged s) \<and>
        (\<forall>s'. f s a (Some n) w = Return () s' \<longrightarrow>
           resized_to n (objs s a) (objs s' a) \<and>
           (\<forall>c \<in> snd ` set (cols_of (objs s a)). dunder_len (objs s' c) = Some (Some n))))"

text \<open>Example states: no object yet; one empty table; one table being filled.\<close>

definition init_state :: state where
  "init_state = \<lparr>objs = (\<lambda>_. Scalar), logged = [], fresh = 0\<rparr>"

definition empty_table_state :: state where
  "empty_table_state =
     \<lparr>objs = (\<lambda>_. Scalar)(0 := Table \<lparr>size_attr = Some 1024, loc = 0, cols = []\<rparr>), logged = [], fresh = 1\<rparr>"

definition cursor_state :: state where
  "cursor_state =
     \<lparr>objs = (\<lambda>_. Scalar)(0 := Table \<lparr>size_attr = Some 2, loc = 1, cols = []\<rparr>), logged = [], fresh = 1\<rparr>"

text \<open>\<^verbatim>\<open>len(ob)\<close> returns an integer.\<close>

definition has_int_len :: "pyobj \<Rightarrow> bool" where
  "has_int_len ob = (case py_len ob of Inl e \<Rightarrow> False | Inr l \<Rightarrow> True)"

text \<open>
  \<open>resizable d h a\<close>: the object at \<open>a\<close> can be resized with call depth \<open>d\<close>: it is an
  array, a vector of vectors, or a table whose columns have a length and are resizable
  with depth \<open>d - 1\<close>.  A table that contains itself is not resizable at any depth.
\<close>

primrec resizable :: "nat \<Rightarrow> (addr \<Rightarrow> pyobj) \<Rightarrow> addr \<Rightarrow> bool" where
  "resizable 0 h a = (case h a of Array xs \<Rightarrow> True | VectorOfVectors vs \<Rightarrow> True | _ \<Rightarrow> False)"
| "resizable (Suc d) h a =
     (case h a of
        Array xs \<Rightarrow> True
      | VectorOfVectors vs \<Rightarrow> True
      | Scalar \<Rightarrow> False
      | Table t \<Rightarrow> (\<forall>c \<in> snd ` set (cols t). has_int_len (h c) \<and> resizable d h c))"


text \<open>
  An array of length 3 that is the column of two tables, of sizes 5 and 3, and a further
  table that has the first of them as its column.
\<close>

definition skipped_state :: state where
  "skipped_state =
     \<lparr>objs = (\<lambda>_. Scalar)
        (0 := Array [1, 2, 3],
         1 := Table \<lparr>size_attr = Some 5, loc = 0, cols = [(''b'', 0)]\<rparr>,
         2 := Table \<lparr>size_attr = Some 3, loc = 0, cols = [(''b'', 0)]\<rparr>,
         3 := Table \<lparr>size_attr = Some 5, loc = 0, cols = [(''sub'', 1)]\<rparr>),
      logged = [], fresh = 4\<rparr>"

text \<open>A table with an array column and a sub-table column, the sub-table with one column.\<close>

definition nested_state :: state where
  "nested_state =
     \<lparr>objs = (\<lambda>_. Scalar)
        (0 := Table \<lparr>size_attr = Some 3, loc = 0, cols = [(''a'', 1), (''sub'', 2)]\<rparr>,
         1 := Array [1, 2, 3],
         2 := Table \<lparr>size_attr = Some 3, loc = 0, cols = [(''b'', 3)]\<rparr>,
         3 := VectorOfVectors [[1], [2], [3]]),
      logged = [], fresh = 4\<rparr>"

text \<open>The \<^verbatim>\<open>nda\<close> of the column \<open>col\<close> of the table at \<open>self\<close>, when there is one.\<close>

definition column_nda :: "state \<Rightarrow> addr \<Rightarrow> string \<Rightarrow> int list option" where
  "column_nda s self col = (case getitem s self col of None \<Rightarrow> None | Some a \<Rightarrow> nda (objs s a))"

text \<open>
  The invariant of the class: every column of the table \<open>t\<close> has, in the store \<open>h\<close>, the
  length that the table's \<^verbatim>\<open>size\<close> attribute gives.
\<close>

definition equal_length :: "(addr \<Rightarrow> pyobj) \<Rightarrow> table \<Rightarrow> bool" where
  "equal_length h t = (\<forall>c \<in> snd ` set (cols t). dunder_len (h c) = Some (size_attr t))"

text \<open>Two tables of size 3 with columns of their own.\<close>

definition join_state :: state where
  "join_state =
     \<lparr>objs = (\<lambda>_. Scalar)
        (0 := Table \<lparr>size_attr = Some 3, loc = 0, cols = [(''a'', 2)]\<rparr>,
         1 := Table \<lparr>size_attr = Some 3, loc = 0, cols = [(''b'', 3), (''c'', 4)]\<rparr>,
         2 := Array [1, 2, 3],
         3 := Array [4, 5, 6],
         4 := VectorOfVectors [[], [7], [8, 9]]),
      logged = [], fresh = 5\<rparr>"

text \<open>
  Two tables of size 3; the second holds a table whose size is \<^verbatim>\<open>None\<close> and an array
  of length 3.
\<close>

definition join_undefined_state :: state where
  "join_undefined_state =
     \<lparr>objs = (\<lambda>_. Scalar)
        (0 := Table \<lparr>size_attr = Some 3, loc = 0, cols = []\<rparr>,
         1 := Table \<lparr>size_attr = Some 3, loc = 0, cols = [(''x'', 2), (''y'', 3)]\<rparr>,
         2 := Table \<lparr>size_attr = None, loc = 0, cols = []\<rparr>,
         3 := Array [1, 2, 3]),
      logged = [], fresh = 4\<rparr>"

text \<open>
  A table of size 1024 and a second table whose size is \<^verbatim>\<open>None\<close>, as \<^verbatim>\<open>resize()\<close>
  leaves a table without columns.
\<close>

definition undefined_size_state :: state where
  "undefined_size_state =
     \<lparr>objs = (\<lambda>_. Scalar)
        (0 := Table \<lparr>size_attr = Some 1024, loc = 0, cols = []\<rparr>,
         1 := Table \<lparr>size_attr = None, loc = 0, cols = []\<rparr>),
      logged = [], fresh = 2\<rparr>"

text \<open>
  Two tables as \<^verbatim>\<open>Table(col_dict={'a': x})\<close> and \<^verbatim>\<open>Table(size=5)\<close> build them, for an
  array \<^verbatim>\<open>x\<close> of length 3, and a further array of length 3.
\<close>

definition shared_state :: state where
  "shared_state =
     \<lparr>objs = (\<lambda>_. Scalar)
        (0 := Table \<lparr>size_attr = Some 3, loc = 0, cols = [(''a'', 2)]\<rparr>,
         1 := Table \<lparr>size_attr = Some 5, loc = 0, cols = []\<rparr>,
         2 := Array [1, 2, 3],
         3 := Array [7, 8, 9]),
      logged = [], fresh = 4\<rparr>"

text \<open>The state after the second table has taken the array of the first as its column.\<close>

definition shared_state_2 :: state where
  "shared_state_2 =
     \<lparr>objs = (\<lambda>_. Scalar)
        (0 := Table \<lparr>size_attr = Some 3, loc = 0, cols = [(''a'', 2)]\<rparr>,
         1 := Table \<lparr>size_attr = Some 5, loc = 0, cols = [(''a'', 2)]\<rparr>,
         2 := Array [1, 2, 3, 0, 0],
         3 := Array [7, 8, 9]),
      logged = [], fresh = 4\<rparr>"

text \<open>The state after the first table has then taken the further array as a column.\<close>

definition shared_state_3 :: state where
  "shared_state_3 =
     \<lparr>objs = (\<lambda>_. Scalar)
        (0 := Table \<lparr>size_attr = Some 3, loc = 0, cols = [(''a'', 2), (''c'', 3)]\<rparr>,
         1 := Table \<lparr>size_attr = Some 5, loc = 0, cols = [(''a'', 2)]\<rparr>,
         2 := Array [1, 2, 3, 0, 0],
         3 := Array [7, 8, 9]),
      logged = [], fresh = 4\<rparr>"

text \<open>
  \<open>reach d h a\<close>: the objects that a \<^verbatim>\<open>resize\<close> of the object at \<open>a\<close> can touch when
  it may descend \<open>d\<close> levels: the object itself, its columns, their columns, and so on.
\<close>

primrec reach :: "nat \<Rightarrow> (addr \<Rightarrow> pyobj) \<Rightarrow> addr \<Rightarrow> addr set" where
  "reach 0 h a = {a}"
| "reach (Suc d) h a = insert a (\<Union>c \<in> snd ` set (cols_of (h a)). reach d h c)"

text \<open>
  \<open>independent d h cs\<close>: no column in the list \<open>cs\<close> is touched by the resize of a
  column before it; in particular no object occurs twice.
\<close>

fun independent :: "nat \<Rightarrow> (addr \<Rightarrow> pyobj) \<Rightarrow> (string \<times> addr) list \<Rightarrow> bool" where
  "independent d h [] = True"
| "independent d h ((f, a) # rest) = ((\<forall>c \<in> snd ` set rest. c \<notin> reach d h a) \<and> independent d h rest)"

text \<open>
  The warnings for the fields of \<open>cs\<close> whose length in the store \<open>h\<close> differs from \<open>n\<close>,
  in the order of the fields.
\<close>

fun expected_warnings :: "(addr \<Rightarrow> pyobj) \<Rightarrow> int \<Rightarrow> (string \<times> addr) list \<Rightarrow> warning list" where
  "expected_warnings h n [] = []"
| "expected_warnings h n ((f, a) # rest) =
     (case py_len (h a) of
        Inl e \<Rightarrow> []
      | Inr l \<Rightarrow> if l \<noteq> n then [ResizeWarning f l n] else []) @ expected_warnings h n rest"

text \<open>\<open>frame_spec d f\<close>: a call of \<open>f\<close> changes no object outside \<open>reach d\<close> of its target.\<close>

definition frame_spec :: "nat \<Rightarrow> (state \<Rightarrow> addr \<Rightarrow> int option \<Rightarrow> bool \<Rightarrow> unit outcome) \<Rightarrow> bool" where
  "frame_spec d f = (\<forall>s a m w b. b \<notin> reach d (objs s) a \<longrightarrow> objs (final (f s a m w)) b = objs s b)"

text \<open>
  A table that holds one array of length 3 under two names, as
  \<^verbatim>\<open>Table(col_dict={'a': x, 'b': x})\<close> builds it, and an array of length 5.
\<close>

definition alias_state :: state where
  "alias_state =
     \<lparr>objs = (\<lambda>_. Scalar)
        (0 := Table \<lparr>size_attr = Some 3, loc = 0, cols = [(''a'', 1), (''b'', 1)]\<rparr>,
         1 := Array [1, 2, 3],
         2 := Array [0, 0, 0, 0, 0]),
      logged = [], fresh = 3\<rparr>"

text \<open>A table of size 3 with three distinct columns of lengths 3, 5 and 1.\<close>

definition warn_state :: state where
  "warn_state =
     \<lparr>objs = (\<lambda>_. Scalar)
        (0 := Table \<lparr>size_attr = Some 3, loc = 0, cols = [(''a'', 1), (''b'', 2), (''c'', 3)]\<rparr>,
         1 := Array [1, 2, 3],
         2 := Array [1, 2, 3, 4, 5],
         3 := VectorOfVectors [[1]]),
      logged = [], fresh = 4\<rparr>"

text \<open>
  What holds of the table under construction in \<^verbatim>\<open>eval\<close>: it is a table of size \<open>n\<close>
  at \<open>out\<close>, its column names are \<open>ks\<close>, and its columns are arrays of length \<open>n\<close>
  created after it.
\<close>

definition out_table :: "state \<Rightarrow> addr \<Rightarrow> int \<Rightarrow> string list \<Rightarrow> bool" where
  "out_table s out n ks =
     (out < fresh s \<and>
      (\<exists>t. objs s out = Table t \<and> size_attr t = Some n \<and> loc t = 0 \<and> map fst (cols t) = ks \<and>
           (\<forall>c \<in> snd ` set (cols t). out < c \<and> c < fresh s \<and>
                (\<exists>xs. objs s c = Array xs \<and> int (length xs) = n))))"

text \<open>
  Two engines for the examples: one that is never asked anything and leaves the frame as
  it is, and one that evaluates every expression to the constant 7, one value per row of
  the frame, and stores it under the name before the first blank.
\<close>

definition idle_engine :: engine where
  "idle_engine df e p = Inr (df, [])"

definition broadcast_engine :: engine where
  "broadcast_engine df e p =
     Inr (AList.update (takeWhile (\<lambda>c. c \<noteq> CHR '' '') e) (replicate (df_rows df) (Some 7)) df,
          replicate (df_rows df) 7)"

text \<open>
  \<open>engine_ok engine n df cfg\<close>: the engine evaluates every block of \<open>cfg\<close>, each on the
  frame that the blocks before it have left of \<open>df\<close>, and every target column that it
  gives has \<open>n\<close> values.
\<close>

fun engine_ok :: "engine \<Rightarrow> int \<Rightarrow> dataframe \<Rightarrow> (string \<times> expr_spec) list \<Rightarrow> bool" where
  "engine_ok engine n df [] = True"
| "engine_ok engine n df ((out_var, spec) # rest) =
     (case engine df (out_var @ '' = '' @ expression spec) (parameters spec) of
        Inl e \<Rightarrow> False
      | Inr (df', xs) \<Rightarrow> int (length xs) = n \<and> engine_ok engine n df' rest)"

section \<open>Properties of resize\<close>

lemma final_simps [simp]: "final (Raise e s) = s" "final (Return x s) = s"
  by (simp_all add: final_def)

lemma length_nd_resize [simp]: "length (nd_resize xs n) = n"
  by (simp add: nd_resize_def)

lemma length_vov_resize [simp]: "length (vov_resize vs n) = n"
  by (simp add: vov_resize_def)

lemma nd_resize_idem [simp]: "nd_resize (nd_resize xs n) n = nd_resize xs n"
  by (simp add: nd_resize_def)

lemma vov_resize_idem [simp]: "vov_resize (vov_resize vs n) n = vov_resize vs n"
  by (simp add: vov_resize_def)

lemma resized_to_len: "resized_to n ob ob' \<Longrightarrow> dunder_len ob' = Some (Some n)"
  by (auto simp: resized_to_def split: pyobj.splits)

lemma resized_to_cols: "resized_to n ob ob' \<Longrightarrow> cols_of ob' = cols_of ob"
  by (auto simp: resized_to_def cols_of_def split: pyobj.splits)

lemma resized_to_trans: "resized_to n ob ob' \<Longrightarrow> resized_to n ob' ob'' \<Longrightarrow> resized_to n ob ob''"
  by (auto simp: resized_to_def split: pyobj.splits)

lemma resizes_refl [simp]: "resizes n h h"
  by (simp add: resizes_def)

lemma resizes_len:
  "dunder_len (h c) = Some (Some n) \<Longrightarrow> resizes n h h' \<Longrightarrow> dunder_len (h' c) = Some (Some n)"
  unfolding resizes_def by (metis resized_to_len)

lemma resizes_cols: "resizes n h h' \<Longrightarrow> cols_of (h' a) = cols_of (h a)"
  unfolding resizes_def by (metis resized_to_cols)

lemma resizes_trans:
  assumes "resizes n h h'" and "resizes n h' h''"
  shows "resizes n h h''"
  unfolding resizes_def
proof (intro allI)
  fix a
  let ?good = "\<lambda>k. \<forall>c \<in> snd ` set (cols_of (h a)). dunder_len (k c) = Some (Some n)"
  have c: "cols_of (h' a) = cols_of (h a)" using assms(1) by (rule resizes_cols)
  have keep: "?good h' \<Longrightarrow> ?good h''" using resizes_len [OF _ assms(2)] by blast
  consider (uu) "h' a = h a" "h'' a = h' a"
    | (um) "h' a = h a" "resized_to n (h' a) (h'' a)" "\<forall>c \<in> snd ` set (cols_of (h' a)). dunder_len (h'' c) = Some (Some n)"
    | (mu) "resized_to n (h a) (h' a)" "?good h'" "h'' a = h' a"
    | (mm) "resized_to n (h a) (h' a)" "?good h'" "resized_to n (h' a) (h'' a)"
    using assms unfolding resizes_def by metis
  then show "h'' a = h a \<or> (resized_to n (h a) (h'' a) \<and> ?good h'')"
  proof cases
    case uu then show ?thesis by simp
  next
    case um then show ?thesis by simp
  next
    case mu then show ?thesis using keep by simp
  next
    case mm
    have "resized_to n (h a) (h'' a)" using mm(1,3) by (rule resized_to_trans)
    moreover have "?good h''" using mm(2) by (rule keep)
    ultimately show ?thesis by simp
  qed
qed

lemma resizes_upd:
  "resized_to n (h a) ob \<Longrightarrow> \<forall>c \<in> snd ` set (cols_of (h a)). dunder_len ((h(a := ob)) c) = Some (Some n)
   \<Longrightarrow> resizes n h (h(a := ob))"
  by (simp add: resizes_def)

lemma obj_resize_spec:
  assumes "resize_spec n sub"
  shows "resizes n (objs s) (objs (final (obj_resize sub s a n)))"
    and "fresh (final (obj_resize sub s a n)) = fresh s"
    and "logged (final (obj_resize sub s a n)) = logged s"
    and "obj_resize sub s a n = Return () s' \<Longrightarrow> dunder_len (objs s' a) = Some (Some n)"
proof -
  show "resizes n (objs s) (objs (final (obj_resize sub s a n)))"
  proof (cases "objs s a")
    case (Array xs)
    then show ?thesis
      by (auto simp: obj_resize_def intro!: resizes_upd simp: resized_to_def cols_of_def)
  next
    case (VectorOfVectors vs)
    then show ?thesis
      by (auto simp: obj_resize_def intro!: resizes_upd simp: resized_to_def cols_of_def)
  next
    case Scalar
    then show ?thesis by (simp add: obj_resize_def)
  next
    case (Table t)
    then show ?thesis using assms by (simp add: obj_resize_def resize_spec_def)
  qed
  show "fresh (final (obj_resize sub s a n)) = fresh s"
    using assms by (cases "objs s a") (auto simp: obj_resize_def resize_spec_def)
  show "logged (final (obj_resize sub s a n)) = logged s"
    using assms by (cases "objs s a") (auto simp: obj_resize_def resize_spec_def)
  show "dunder_len (objs s' a) = Some (Some n)" if r: "obj_resize sub s a n = Return () s'"
  proof (cases "objs s a")
    case (Table t)
    then have "sub s a (Some n) False = Return () s'" using r by (simp add: obj_resize_def)
    then have "resized_to n (objs s a) (objs s' a)" using assms unfolding resize_spec_def by blast
    then show ?thesis by (rule resized_to_len)
  qed (use r in \<open>auto simp: obj_resize_def split: if_splits\<close>)
qed

lemma py_len_Inr: "py_len ob = Inr l \<Longrightarrow> dunder_len ob = Some (Some l)"
  by (auto simp: py_len_def maxsize_def split: option.splits if_splits)

lemma resize_fields_spec:
  assumes sub: "resize_spec n sub"
  shows "resizes n (objs s) (objs (final (resize_fields sub cs s (Some n) w))) \<and>
         fresh (final (resize_fields sub cs s (Some n) w)) = fresh s \<and>
         (\<not> w \<longrightarrow> logged (final (resize_fields sub cs s (Some n) w)) = logged s) \<and>
         (\<forall>m s'. resize_fields sub cs s (Some n) w = Return m s' \<longrightarrow>
            m = Some n \<and> (\<forall>c \<in> snd ` set cs. dunder_len (objs s' c) = Some (Some n)))"
proof (induction cs arbitrary: s)
  case Nil
  show ?case by simp
next
  case (Cons p cs)
  obtain field a where p: "p = (field, a)" by (cases p)
  show ?case
  proof (cases "py_len (objs s a)")
    case (Inl e)
    then show ?thesis by (simp add: p)
  next
    case (Inr l)
    show ?thesis
    proof (cases "l = n")
      case True
      have eq: "resize_fields sub (p # cs) s (Some n) w = resize_fields sub cs s (Some n) w"
        using Inr True by (simp add: p)
      have len: "dunder_len (objs s a) = Some (Some n)" using Inr True by (simp add: py_len_Inr)
      show ?thesis
        unfolding eq using Cons.IH [of s] resizes_len [where h="objs s" and c=a, OF len] by (auto simp: p)
    next
      case False
      define s1 where "s1 = (if w then warn (ResizeWarning field l n) s else s)"
      have s1: "objs s1 = objs s" "fresh s1 = fresh s" "\<not> w \<Longrightarrow> logged s1 = logged s"
        by (simp_all add: s1_def warn_def)
      show ?thesis
      proof (cases "obj_resize sub s1 a n")
        case (Raise e s2)
        have "resize_fields sub (p # cs) s (Some n) w = Raise e s2"
          using Inr False Raise by (simp add: p s1_def)
        then show ?thesis
          using obj_resize_spec(1-3) [OF sub, of s1 a] Raise s1 by (cases w) simp_all
      next
        case (Return u s2)
        have eq: "resize_fields sub (p # cs) s (Some n) w = resize_fields sub cs s2 (Some n) w"
          using Inr False Return by (simp add: p s1_def)
        have r1: "resizes n (objs s) (objs s2)" "fresh s2 = fresh s" "logged s2 = logged s1"
          using obj_resize_spec(1-3) [OF sub, of s1 a] Return s1 by simp_all
        have len: "dunder_len (objs s2 a) = Some (Some n)"
          using obj_resize_spec(4) [OF sub, of s1 a s2] Return by simp
        show ?thesis
          unfolding eq
          using Cons.IH [of s2] r1 s1(3) resizes_trans [OF r1(1)] resizes_len [where h="objs s2" and c=a, OF len]
          by (cases w) (auto simp: p)
      qed
    qed
  qed
qed

lemma set_size_simps [simp]:
  "fresh (set_size s a n) = fresh s" "logged (set_size s a n) = logged s"
  by (auto simp: set_size_def split: pyobj.splits)

lemma set_size_objs:
  "objs s a = Table t \<Longrightarrow> objs (set_size s a n) = (objs s)(a := Table (t\<lparr>size_attr := n\<rparr>))"
  by (simp add: set_size_def)

lemma resize_spec_resize: "resize_spec n (resize d)"
proof (induction d)
  case 0
  show ?case by (simp add: resize_spec_def)
next
  case (Suc d)
  show ?case
    unfolding resize_spec_def
  proof (intro allI)
    fix s a w
    let ?r = "resize (Suc d) s a (Some n) w"
    show "resizes n (objs s) (objs (final ?r)) \<and> fresh (final ?r) = fresh s \<and>
          (\<not> w \<longrightarrow> logged (final ?r) = logged s) \<and>
          (\<forall>s'. ?r = Return () s' \<longrightarrow>
             resized_to n (objs s a) (objs s' a) \<and>
             (\<forall>c \<in> snd ` set (cols_of (objs s a)). dunder_len (objs s' c) = Some (Some n)))"
    proof (cases "objs s a")
      case (Table t)
      let ?f = "resize_fields (resize d) (cols t) s (Some n) w"
      note F = resize_fields_spec [OF Suc, of s "cols t" w]
      show ?thesis
      proof (cases ?f)
        case (Raise e s1)
        then have "?r = Raise e s1" using Table by simp
        then show ?thesis using F Raise by (cases w) simp_all
      next
        case (Return m s1)
        have m: "m = Some n" and lens: "\<forall>c \<in> snd ` set (cols t). dunder_len (objs s1 c) = Some (Some n)"
          using F Return by auto
        have r1: "resizes n (objs s) (objs s1)" "fresh s1 = fresh s" "\<not> w \<Longrightarrow> logged s1 = logged s"
          using F Return by auto
        have c1: "cols_of (objs s1 a) = cols t"
          using resizes_cols [OF r1(1), of a] Table by (simp add: cols_of_def)
        have "objs s1 a = objs s a \<or> resized_to n (objs s a) (objs s1 a)"
          using r1(1) unfolding resizes_def by blast
        then have "objs s1 a = Table t \<or> objs s1 a = Table (t\<lparr>size_attr := Some n\<rparr>)"
          by (simp add: Table resized_to_def)
        then obtain t1 where t1: "objs s1 a = Table t1" "t1 = t \<or> t1 = t\<lparr>size_attr := Some n\<rparr>"
          by blast
        define s2 where "s2 = set_size s1 a (Some n)"
        have r: "?r = Return () s2" using Table Return m by (simp add: s2_def)
        have o2: "objs s2 = (objs s1)(a := Table (t\<lparr>size_attr := Some n\<rparr>))"
          using t1 by (auto simp: s2_def set_size_objs)
        have lens2: "\<forall>c \<in> snd ` set (cols t). dunder_len (objs s2 c) = Some (Some n)"
          using lens by (simp add: o2)
        have "resizes n (objs s1) (objs s2)"
          unfolding o2 using t1 c1 lens2
          by (intro resizes_upd) (auto simp: resized_to_def o2)
        then have "resizes n (objs s) (objs s2)" using r1(1) resizes_trans by blast
        moreover have "resized_to n (objs s a) (objs s2 a)"
          by (simp add: o2 Table resized_to_def)
        ultimately show ?thesis
          using r r1 lens2 Table by (cases w) (simp_all add: s2_def cols_of_def)
      qed
    qed (simp_all add: resize_spec_def)
  qed
qed

section \<open>What a returning resize has done\<close>

lemma resize_Return_table:
  "resize d s self new_size w = Return () s' \<Longrightarrow> \<exists>t. objs s self = Table t"
  by (cases d; cases "objs s self") auto

lemma resize_Some_Return:
  assumes "resize d s self (Some n) w = Return () s'"
  obtains t where "objs s self = Table t" "objs s' self = Table (t\<lparr>size_attr := Some n\<rparr>)"
    "\<forall>c \<in> snd ` set (cols t). dunder_len (objs s' c) = Some (Some n)"
    "resizes n (objs s) (objs s')" "fresh s' = fresh s" "\<not> w \<Longrightarrow> logged s' = logged s"
proof -
  obtain t where t: "objs s self = Table t" using assms resize_Return_table by blast
  have sp: "resizes n (objs s) (objs (final (resize d s self (Some n) w)))"
    "fresh (final (resize d s self (Some n) w)) = fresh s"
    "\<not> w \<longrightarrow> logged (final (resize d s self (Some n) w)) = logged s"
    "resized_to n (objs s self) (objs s' self)"
    "\<forall>c \<in> snd ` set (cols_of (objs s self)). dunder_len (objs s' c) = Some (Some n)"
    using resize_spec_resize [of n d] assms unfolding resize_spec_def by blast+
  show thesis
    using that [OF t] sp assms by (cases w) (simp_all add: t resized_to_def cols_of_def)
qed

lemma resize_None_Nil:
  "objs s self = Table t \<Longrightarrow> cols t = [] \<Longrightarrow> resize (Suc d) s self None w = Return () (set_size s self None)"
  by simp

lemma resize_None_Cons:
  "objs s self = Table t \<Longrightarrow> cols t = (f, a) # rest \<Longrightarrow> py_len (objs s a) = Inr l \<Longrightarrow>
   resize d s self None w = resize d s self (Some l) w"
  by (cases d) simp_all

lemma resize_None_Cons_Return:
  assumes "resize d s self None w = Return () s'" "objs s self = Table t" "cols t = (f, a) # rest"
  obtains l where "py_len (objs s a) = Inr l" "resize d s self (Some l) w = Return () s'"
proof (cases "py_len (objs s a)")
  case (Inl e)
  then have False using assms by (cases d) simp_all
  then show ?thesis ..
next
  case (Inr l)
  then show ?thesis using that resize_None_Cons [OF assms(2,3) Inr, of d w] assms(1) by simp
qed

section \<open>Default construction, undefined size and the row cursor\<close>

lemma set_loc_simps [simp]:
  "fresh (set_loc s a n) = fresh s" "logged (set_loc s a n) = logged s"
  by (auto simp: set_loc_def split: pyobj.splits)

lemma set_loc_objs:
  "objs s a = Table t \<Longrightarrow> objs (set_loc s a n) = (objs s)(a := Table (t\<lparr>loc := n\<rparr>))"
  by (simp add: set_loc_def)

lemma init_no_columns:
  assumes "col_dict = None \<or> col_dict = Some []"
  shows "init d s self size_arg col_dict =
         Return () (s\<lparr>objs := (objs s)(self := Table \<lparr>size_attr = Some (case size_arg of None \<Rightarrow> 1024 | Some n \<Rightarrow> n),
                                                      loc = 0, cols = []\<rparr>)\<rparr>)"
  using assms by (auto simp: init_def dict_update_def set_size_def set_loc_def)

text \<open>
  Claim C10.  \<^verbatim>\<open>Table()\<close> with \<^verbatim>\<open>size=None\<close> and \<^verbatim>\<open>col_dict\<close> either \<^verbatim>\<open>None\<close> or
  empty gives a table of size 1024 with \<^verbatim>\<open>loc\<close> 0 and no column; \<^verbatim>\<open>len(table)\<close> is 1024
  and \<^verbatim>\<open>is_full()\<close> is false.
\<close>

theorem default_construction:
  assumes "col_dict = None \<or> col_dict = Some []"
  shows "\<exists>s'. new_table d s None col_dict = Return (fresh s) s' \<and>
              objs s' (fresh s) = Table \<lparr>size_attr = Some 1024, loc = 0, cols = []\<rparr> \<and>
              len_method \<lparr>size_attr = Some 1024, loc = 0, cols = []\<rparr> = Some 1024 \<and>
              py_len (objs s' (fresh s)) = Inr 1024 \<and>
              is_full s' (fresh s) = Return False s'"
  using assms
  by (simp add: new_table_def init_no_columns len_method_def py_len_def maxsize_def is_full_def)

theorem default_construction_witness:
  "\<exists>s'. new_table 0 init_state None None = Return (fresh init_state) s' \<and>
        objs s' (fresh init_state) = Table \<lparr>size_attr = Some 1024, loc = 0, cols = []\<rparr> \<and>
        len_method \<lparr>size_attr = Some 1024, loc = 0, cols = []\<rparr> = Some 1024 \<and>
        py_len (objs s' (fresh init_state)) = Inr 1024 \<and>
        is_full s' (fresh init_state) = Return False s'"
  by (rule default_construction) simp

text \<open>
  Claim C8.  \<^verbatim>\<open>resize()\<close> with \<^verbatim>\<open>new_size=None\<close> on a table without columns sets
  \<^verbatim>\<open>size\<close> to \<^verbatim>\<open>None\<close>; afterwards \<^verbatim>\<open>__len__\<close> returns \<^verbatim>\<open>None\<close> (so that
  \<^verbatim>\<open>len(table)\<close> raises \<^verbatim>\<open>TypeError\<close>) and \<^verbatim>\<open>is_full()\<close> compares \<^verbatim>\<open>loc\<close> with
  \<^verbatim>\<open>None\<close>, which raises \<^verbatim>\<open>TypeError\<close>.
\<close>

theorem resize_none_without_columns:
  assumes "objs s self = Table t" and "cols t = []"
  shows "\<exists>s'. resize (Suc d) s self None do_warn = Return () s' \<and>
              objs s' self = Table (t\<lparr>size_attr := None\<rparr>) \<and>
              len_method (t\<lparr>size_attr := None\<rparr>) = None \<and>
              py_len (objs s' self) = Inl TypeError \<and>
              is_full s' self = Raise TypeError s'"
  using assms
  by (simp add: set_size_def len_method_def py_len_def maxsize_def is_full_def)

theorem resize_none_without_columns_witness:
  "\<exists>s'. resize (Suc 0) empty_table_state 0 None False = Return () s' \<and>
        objs s' 0 = Table (\<lparr>size_attr = Some 1024, loc = 0, cols = []\<rparr>\<lparr>size_attr := None\<rparr>) \<and>
        len_method (\<lparr>size_attr = Some 1024, loc = 0, cols = []\<rparr>\<lparr>size_attr := None\<rparr>) = None \<and>
        py_len (objs s' 0) = Inl TypeError \<and>
        is_full s' 0 = Raise TypeError s'"
  by (rule resize_none_without_columns) (simp_all add: empty_table_state_def)

lemma resize_Return_after:
  assumes "resize d s self new_size w = Return () s'"
  shows "\<exists>t m. objs s self = Table t \<and> objs s' self = Table (t\<lparr>size_attr := m\<rparr>)"
proof -
  obtain t where t: "objs s self = Table t" using assms resize_Return_table by blast
  have some: "\<exists>m. objs s' self = Table (t\<lparr>size_attr := m\<rparr>)"
    if "resize d s self (Some n) w = Return () s'" for n
    using that t by (elim resize_Some_Return) auto
  show ?thesis
  proof (cases new_size)
    case (Some n)
    then show ?thesis using assms some t by blast
  next
    case None
    show ?thesis
    proof (cases "cols t")
      case Nil
      then show ?thesis using assms None t
        by (cases d) (auto simp: set_size_def)
    next
      case (Cons p rest)
      obtain f a where "p = (f, a)" by (cases p)
      with Cons have c: "cols t = (f, a) # rest" by simp
      from assms None obtain l where "resize d s self (Some l) w = Return () s'"
        using resize_None_Cons_Return [OF _ t c] by blast
      then show ?thesis using some t by blast
    qed
  qed
qed

lemma init_Return_loc:
  assumes "init d s self size_arg col_dict = Return () s'"
  shows "\<exists>t. objs s' self = Table t \<and> loc t = 0"
proof (cases "col_dict = None \<or> col_dict = Some []")
  case True
  then show ?thesis using assms by (auto simp: init_no_columns)
next
  case False
  then obtain kv kvs where cd: "col_dict = Some (kv # kvs)"
    by (cases col_dict) (auto simp: neq_Nil_conv)
  define s0 where "s0 = s\<lparr>objs := (objs s)(self := Table \<lparr>size_attr = None, loc = 0,
                  cols = dict_update [] (kv # kvs)\<rparr>)\<rparr>"
  from assms obtain s1 where r: "resize d s0 self size_arg (size_arg = None) = Return () s1"
    and s': "s' = set_loc s1 self 0"
    by (auto simp: init_def cd s0_def split: outcome.splits)
  from r obtain t where "objs s1 self = Table t"
    using resize_Return_after by blast
  then show ?thesis by (simp add: s' set_loc_objs)
qed

text \<open>
  Claim C2.  A newly constructed table has \<^verbatim>\<open>loc\<close> 0; \<^verbatim>\<open>push_row\<close> adds exactly 1 to
  \<^verbatim>\<open>loc\<close> and changes nothing else; \<^verbatim>\<open>clear\<close> sets \<^verbatim>\<open>loc\<close> to 0 and changes nothing
  else; when \<^verbatim>\<open>size\<close> is an integer, \<^verbatim>\<open>is_full()\<close> returns whether \<^verbatim>\<open>loc >= size\<close>,
  and leaves the state as it is.
\<close>

theorem loc_cursor:
  assumes "objs s self = Table t"
  shows "(new_table d s0 size_arg col_dict = Return a s' \<longrightarrow> (\<exists>t'. objs s' a = Table t' \<and> loc t' = 0)) \<and>
         push_row s self = Return () (s\<lparr>objs := (objs s)(self := Table (t\<lparr>loc := loc t + 1\<rparr>))\<rparr>) \<and>
         clear s self = Return () (s\<lparr>objs := (objs s)(self := Table (t\<lparr>loc := 0\<rparr>))\<rparr>) \<and>
         (\<forall>n. size_attr t = Some n \<longrightarrow> is_full s self = Return (n \<le> loc t) s)"
proof -
  have "\<exists>t'. objs s' a = Table t' \<and> loc t' = 0" if "new_table d s0 size_arg col_dict = Return a s'"
    using that init_Return_loc [of d "s0\<lparr>fresh := Suc (fresh s0)\<rparr>" "fresh s0" size_arg col_dict s']
    by (auto simp: new_table_def split: outcome.splits)
  then show ?thesis
    using assms by (simp add: push_row_def clear_def is_full_def set_loc_def)
qed

theorem loc_cursor_witness:
  "objs cursor_state 0 = Table \<lparr>size_attr = Some 2, loc = 1, cols = []\<rparr> \<and>
   new_table 0 cursor_state None None =
     Return 1 (cursor_state\<lparr>objs := (objs cursor_state)(1 := Table \<lparr>size_attr = Some 1024, loc = 0, cols = []\<rparr>), fresh := 2\<rparr>) \<and>
   push_row cursor_state 0 =
     Return () (cursor_state\<lparr>objs := (objs cursor_state)(0 := Table \<lparr>size_attr = Some 2, loc = 2, cols = []\<rparr>)\<rparr>) \<and>
   clear cursor_state 0 =
     Return () (cursor_state\<lparr>objs := (objs cursor_state)(0 := Table \<lparr>size_attr = Some 2, loc = 0, cols = []\<rparr>)\<rparr>) \<and>
   is_full cursor_state 0 = Return False cursor_state"
  using loc_cursor [of cursor_state 0 "\<lparr>size_attr = Some 2, loc = 1, cols = []\<rparr>" 0 cursor_state None None 1
      "cursor_state\<lparr>objs := (objs cursor_state)(1 := Table \<lparr>size_attr = Some 1024, loc = 0, cols = []\<rparr>), fresh := 2\<rparr>"]
  by (simp add: cursor_state_def new_table_def init_no_columns)

section \<open>Resize propagation\<close>


lemma py_len_dunder: "valid_len l \<Longrightarrow> dunder_len ob = Some (Some l) \<Longrightarrow> py_len ob = Inr l"
  by (simp add: py_len_def valid_len_def maxsize_def)


lemma resizes_at: "resizes n h h' \<Longrightarrow> h' a = h a \<or> resized_to n (h a) (h' a)"
  unfolding resizes_def by blast








lemma skipped_state_reached:
  "new_table (Suc 0) \<lparr>objs = (\<lambda>_. Scalar)(0 := Array [1, 2, 3]), logged = [], fresh = 1\<rparr>
     (Some 5) (Some [(''b'', 0)]) =
   Return 1 \<lparr>objs = (\<lambda>_. Scalar)
               (0 := Array [1, 2, 3, 0, 0],
                1 := Table \<lparr>size_attr = Some 5, loc = 0, cols = [(''b'', 0)]\<rparr>),
             logged = [], fresh = 2\<rparr>"
  "new_table (Suc 0) \<lparr>objs = (\<lambda>_. Scalar)
               (0 := Array [1, 2, 3, 0, 0],
                1 := Table \<lparr>size_attr = Some 5, loc = 0, cols = [(''b'', 0)]\<rparr>),
             logged = [], fresh = 2\<rparr>
     (Some 3) (Some [(''b'', 0)]) =
   Return 2 \<lparr>objs = (\<lambda>_. Scalar)
               (0 := Array [1, 2, 3],
                1 := Table \<lparr>size_attr = Some 5, loc = 0, cols = [(''b'', 0)]\<rparr>,
                2 := Table \<lparr>size_attr = Some 3, loc = 0, cols = [(''b'', 0)]\<rparr>),
             logged = [], fresh = 3\<rparr>"
  "new_table (Suc 0) \<lparr>objs = (\<lambda>_. Scalar)
               (0 := Array [1, 2, 3],
                1 := Table \<lparr>size_attr = Some 5, loc = 0, cols = [(''b'', 0)]\<rparr>,
                2 := Table \<lparr>size_attr = Some 3, loc = 0, cols = [(''b'', 0)]\<rparr>),
             logged = [], fresh = 3\<rparr>
     None (Some [(''sub'', 1)]) =
   Return 3 skipped_state"
  by (simp_all add: new_table_def init_def dict_update_def py_len_def maxsize_def obj_resize_def
      set_size_def set_loc_def nd_resize_def skipped_state_def fun_upd_twist numeral_2_eq_2)




section \<open>Data frames\<close>

lemma df_setitem_error: "df_setitem df col xs = Inl e \<Longrightarrow> e = ValueError"
  by (auto simp: df_setitem_def split: if_splits)

lemma df_setitem_common:
  assumes "\<forall>(k, ys) \<in> set df. length ys = n" and "length xs = n"
  shows "df_setitem df col xs = Inr (AList.update col (map Some xs) df)"
proof (cases df)
  case Nil
  then show ?thesis by (simp add: df_setitem_def df_rows_def)
next
  case (Cons p rest)
  then have "df_rows df = n" using assms(1) by (cases p) (auto simp: df_rows_def)
  then show ?thesis using assms(2) Cons by (auto simp: df_setitem_def)
qed

lemma update_columns:
  "\<forall>(k, ys) \<in> set df. length ys = n \<Longrightarrow> length zs = n \<Longrightarrow>
   \<forall>(k, ys) \<in> set (AList.update col zs df). length ys = n"
  by (induction df) auto

lemma get_dataframe_loop_final [simp]: "final (get_dataframe_loop s self names df) = s"
  by (induction names arbitrary: df) (auto split: option.splits sum.splits)

lemma get_dataframe_final [simp]: "final (get_dataframe s self cols_arg) = s"
  by (auto simp: get_dataframe_def split: pyobj.splits)

lemma get_dataframe_loop_raise:
  assumes "\<forall>col \<in> set names. getitem s self col \<noteq> None"
    and "\<exists>col \<in> set names. column_nda s self col = None"
  shows "get_dataframe_loop s self names df = Raise ValueError s"
  using assms
proof (induction names arbitrary: df)
  case Nil
  then show ?case by simp
next
  case (Cons col names)
  from Cons.prems(1) obtain a where a: "getitem s self col = Some a" by auto
  show ?case
  proof (cases "nda (objs s a)")
    case None
    then show ?thesis using a by simp
  next
    case (Some xs)
    then have rest: "\<exists>c \<in> set names. column_nda s self c = None"
      using Cons.prems(2) a by (auto simp: column_nda_def)
    show ?thesis
    proof (cases "df_setitem df col xs")
      case (Inl e)
      then show ?thesis using a Some df_setitem_error [OF Inl] by simp
    next
      case (Inr df')
      then show ?thesis using Cons.IH [OF _ rest] Cons.prems(1) a Some by simp
    qed
  qed
qed

lemma get_dataframe_loop_missing:
  assumes "\<exists>col \<in> set names. getitem s self col = None"
  shows "\<exists>e. get_dataframe_loop s self names df = Raise e s \<and> (e = KeyError \<or> e = ValueError)"
  using assms
proof (induction names arbitrary: df)
  case Nil
  then show ?case by simp
next
  case (Cons col names)
  show ?case
  proof (cases "getitem s self col")
    case None
    then show ?thesis by simp
  next
    case (Some a)
    then have rest: "\<exists>c \<in> set names. getitem s self c = None" using Cons.prems by auto
    show ?thesis
    proof (cases "nda (objs s a)")
      case None
      then show ?thesis using Some by simp
    next
      case xs: (Some xs)
      show ?thesis
      proof (cases "df_setitem df col xs")
        case (Inl e)
        then show ?thesis using Some xs df_setitem_error [OF Inl] by simp
      next
        case (Inr df')
        then show ?thesis using Cons.IH [OF rest, of df'] Some xs by simp
      qed
    qed
  qed
qed

lemma get_dataframe_loop_return:
  assumes "\<forall>col \<in> set names. \<exists>xs. column_nda s self col = Some xs \<and> length xs = n"
    and "\<forall>(k, ys) \<in> set df. length ys = n"
  shows "\<exists>df'. get_dataframe_loop s self names df = Return df' s \<and>
               fst ` set df' = fst ` set df \<union> set names \<and>
               (\<forall>col. map_of df' col = (if col \<in> set names then map_option (map Some) (column_nda s self col)
                                        else map_of df col))"
  using assms
proof (induction names arbitrary: df)
  case Nil
  then show ?case by simp
next
  case (Cons col names)
  from Cons.prems(1) obtain a xs where a: "getitem s self col = Some a" "nda (objs s a) = Some xs"
    and n: "length xs = n"
    by (auto simp: column_nda_def split: option.splits)
  let ?df = "AList.update col (map Some xs) df"
  have set: "df_setitem df col xs = Inr ?df"
    using Cons.prems(2) n by (rule df_setitem_common)
  have inv: "\<forall>(k, ys) \<in> set ?df. length ys = n"
    using Cons.prems(2) n by (intro update_columns) simp_all
  have "\<forall>c \<in> set names. \<exists>xs. column_nda s self c = Some xs \<and> length xs = n"
    using Cons.prems(1) by simp
  from Cons.IH [OF this inv]
  obtain df' where df': "get_dataframe_loop s self names ?df = Return df' s"
      "fst ` set df' = fst ` set ?df \<union> set names"
      "\<forall>c. map_of df' c = (if c \<in> set names then map_option (map Some) (column_nda s self c)
                            else map_of ?df c)"
    by blast
  have "get_dataframe_loop s self (col # names) df = Return df' s" using a set df'(1) by simp
  moreover have "fst ` set df' = fst ` set df \<union> set (col # names)"
    using df'(2) by (auto simp: dom_update)
  moreover have "\<forall>c. map_of df' c = (if c \<in> set (col # names) then map_option (map Some) (column_nda s self c)
                                       else map_of df c)"
    using df'(3) a by (auto simp: update_conv' column_nda_def)
  ultimately show ?case by blast
qed

text \<open>
  Claim C5, as stated, fails.  In \<open>shared_state_3\<close> (a state that two \<^verbatim>\<open>add_field\<close>
  calls on tables that share an array lead to) both columns of the first table carry an \<^verbatim>\<open>nda\<close>,
  of lengths 5 and 3; \<^verbatim>\<open>get_dataframe()\<close> raises \<^verbatim>\<open>ValueError\<close> all the same, when
  \<^verbatim>\<open>pandas\<close> refuses the second assignment on line 209.  And for a requested name that
  is not a column, \<^verbatim>\<open>self[col]\<close> on line 206 raises \<^verbatim>\<open>KeyError\<close>: neither a
  \<^verbatim>\<open>ValueError\<close> nor a frame.
\<close>

theorem get_dataframe_error_condition_counterexample:
  "column_nda shared_state_3 0 ''a'' = Some [1, 2, 3, 0, 0] \<and>
   column_nda shared_state_3 0 ''c'' = Some [7, 8, 9] \<and>
   get_dataframe shared_state_3 0 None = Raise ValueError shared_state_3 \<and>
   get_dataframe shared_state_3 0 (Some [''zz'']) = Raise KeyError shared_state_3"
  by (simp add: shared_state_3_def column_nda_def getitem_def get_dataframe_def keys_def
      df_setitem_def df_rows_def)

text \<open>
  Claim C5, amended.  For a list \<open>names\<close> of columns of the table (by default all of
  them), \<^verbatim>\<open>get_dataframe\<close> raises \<^verbatim>\<open>ValueError\<close> if one of them has no \<^verbatim>\<open>nda\<close>, and it
  returns a frame when all of them carry an \<^verbatim>\<open>nda\<close> of one common length \<open>n\<close>; the
  columns of that frame are exactly the requested names, each with the values of the
  \<^verbatim>\<open>nda\<close> of the column.  For a list with a name that is not a column it raises
  (\<^verbatim>\<open>KeyError\<close>, or \<^verbatim>\<open>ValueError\<close> if that comes first).  In every case the state, and so
  the table, is unchanged.
\<close>

theorem get_dataframe_error_condition:
  assumes "objs s self = Table t"
    and "names = (case cols_arg of None \<Rightarrow> keys t | Some ns \<Rightarrow> ns)"
  shows "(set names \<subseteq> set (keys t) \<and> (\<exists>col \<in> set names. column_nda s self col = None) \<longrightarrow>
            get_dataframe s self cols_arg = Raise ValueError s) \<and>
         (set names \<subseteq> set (keys t) \<and>
          (\<forall>col \<in> set names. \<exists>xs. column_nda s self col = Some xs \<and> length xs = n) \<longrightarrow>
            (\<exists>df. get_dataframe s self cols_arg = Return df s \<and>
                  fst ` set df = set names \<and>
                  (\<forall>col \<in> set names. map_of df col = map_option (map Some) (column_nda s self col)))) \<and>
         (\<not> set names \<subseteq> set (keys t) \<longrightarrow>
            (\<exists>e. get_dataframe s self cols_arg = Raise e s \<and> (e = KeyError \<or> e = ValueError))) \<and>
         final (get_dataframe s self cols_arg) = s"
proof -
  have g: "get_dataframe s self cols_arg = get_dataframe_loop s self names []"
    using assms by (simp add: get_dataframe_def)
  have k: "getitem s self col \<noteq> None \<longleftrightarrow> col \<in> set (keys t)" for col
    using assms(1) by (auto simp: getitem_def keys_def map_of_eq_None_iff)
  have c1: "set names \<subseteq> set (keys t) \<and> (\<exists>col \<in> set names. column_nda s self col = None) \<longrightarrow>
            get_dataframe s self cols_arg = Raise ValueError s"
    unfolding g using get_dataframe_loop_raise [of names s self "[]"] k by blast
  have c2: "set names \<subseteq> set (keys t) \<and>
          (\<forall>col \<in> set names. \<exists>xs. column_nda s self col = Some xs \<and> length xs = n) \<longrightarrow>
            (\<exists>df. get_dataframe s self cols_arg = Return df s \<and>
                  fst ` set df = set names \<and>
                  (\<forall>col \<in> set names. map_of df col = map_option (map Some) (column_nda s self col)))"
    unfolding g using get_dataframe_loop_return [of names s self n "[]"] by auto
  have c3: "\<not> set names \<subseteq> set (keys t) \<longrightarrow>
            (\<exists>e. get_dataframe s self cols_arg = Raise e s \<and> (e = KeyError \<or> e = ValueError))"
    unfolding g using get_dataframe_loop_missing [of names s self "[]"] k by blast
  have c4: "final (get_dataframe s self cols_arg) = s" by simp
  from c1 c2 c3 c4 show ?thesis by (intro conjI)
qed

theorem get_dataframe_error_condition_witness:
  "get_dataframe nested_state 0 None = Raise ValueError nested_state \<and>
   (\<exists>df. get_dataframe nested_state 0 (Some [''a'']) = Return df nested_state \<and>
         fst ` set df = set [''a''] \<and>
         (\<forall>col \<in> set [''a'']. map_of df col = map_option (map Some) (column_nda nested_state 0 col))) \<and>
   (\<exists>e. get_dataframe nested_state 0 (Some [''a'', ''zz'']) = Raise e nested_state \<and>
        (e = KeyError \<or> e = ValueError))"
proof -
  let ?t = "\<lparr>size_attr = Some 3, loc = 0, cols = [(''a'', 1), (''sub'', 2)]\<rparr>"
  have t: "objs nested_state 0 = Table ?t" by (simp add: nested_state_def)
  have a: "column_nda nested_state 0 ''a'' = Some [1, 2, 3]"
    and b: "column_nda nested_state 0 ''sub'' = None"
    by (simp_all add: column_nda_def getitem_def nested_state_def)
  have k: "keys ?t = [''a'', ''sub'']" by (simp add: keys_def)
  have "get_dataframe nested_state 0 None = Raise ValueError nested_state"
    using get_dataframe_error_condition [OF t, of "[''a'', ''sub'']" None, THEN conjunct1] b k
    by simp
  moreover have "\<exists>df. get_dataframe nested_state 0 (Some [''a'']) = Return df nested_state \<and>
         fst ` set df = set [''a''] \<and>
         (\<forall>col \<in> set [''a'']. map_of df col = map_option (map Some) (column_nda nested_state 0 col))"
    using get_dataframe_error_condition [OF t, of "[''a'']" "Some [''a'']" 3, THEN conjunct2, THEN conjunct1] a k
    by simp
  moreover have "\<exists>e. get_dataframe nested_state 0 (Some [''a'', ''zz'']) = Raise e nested_state \<and>
        (e = KeyError \<or> e = ValueError)"
    using get_dataframe_error_condition [OF t, of "[''a'', ''zz'']" "Some [''a'', ''zz'']",
        THEN conjunct2, THEN conjunct2, THEN conjunct1] k
    by simp
  ultimately show ?thesis by (intro conjI)
qed

section \<open>Joining tables\<close>

lemma struct_add_field_simps [simp]:
  "fresh (struct_add_field s a name ob) = fresh s" "logged (struct_add_field s a name ob) = logged s"
  by (auto simp: struct_add_field_def split: pyobj.splits)

lemma struct_add_field_objs:
  "objs s a = Table t \<Longrightarrow>
   objs (struct_add_field s a name ob) = (objs s)(a := Table (t\<lparr>cols := AList.update name ob (cols t)\<rparr>))"
  by (simp add: struct_add_field_def)

lemma table_size_same [simp]: "size_attr t = m \<Longrightarrow> t\<lparr>size_attr := m\<rparr> = t"
  by simp

lemma add_field_unfold:
  assumes "objs s self = Table t" "hasattr_len (objs s ob)"
  shows "add_field d s self name ob u w =
         (case py_len (objs (struct_add_field s self name ob) ob) of
            Inl e \<Rightarrow> Raise e (struct_add_field s self name ob)
          | Inr l \<Rightarrow>
              if size_attr t \<noteq> Some l
              then resize d (struct_add_field s self name ob) self (if u then Some l else size_attr t) False
              else Return () (struct_add_field s self name ob))"
  using assms by (simp add: add_field_def Let_def)

lemma add_field_Return_cases:
  assumes "add_field d s self name ob u w = Return () s'"
  obtains t l where "objs s self = Table t" "hasattr_len (objs s ob)"
    "py_len (objs (struct_add_field s self name ob) ob) = Inr l"
    "size_attr t = Some l" "s' = struct_add_field s self name ob"
  | t l where "objs s self = Table t" "hasattr_len (objs s ob)"
    "py_len (objs (struct_add_field s self name ob) ob) = Inr l"
    "size_attr t \<noteq> Some l"
    "resize d (struct_add_field s self name ob) self (if u then Some l else size_attr t) False = Return () s'"
  using assms
  by (auto simp: add_field_def Let_def split: if_splits pyobj.splits sum.splits)

lemma add_field_same_size:
  assumes t: "objs s self = Table t" and n: "size_attr t = Some n"
    and r: "add_field d s self name a False w = Return () s'"
  shows "objs s' self = Table (t\<lparr>cols := AList.update name a (cols t)\<rparr>)"
    and "resizes n ((objs s)(self := Table (t\<lparr>cols := AList.update name a (cols t)\<rparr>))) (objs s')"
    and "fresh s' = fresh s" and "logged s' = logged s"
proof -
  let ?s1 = "struct_add_field s self name a"
  let ?t1 = "t\<lparr>cols := AList.update name a (cols t)\<rparr>"
  have o1: "objs ?s1 = (objs s)(self := Table ?t1)" using t by (rule struct_add_field_objs)
  have "objs s' self = Table ?t1 \<and> resizes n (objs ?s1) (objs s') \<and> fresh s' = fresh s \<and> logged s' = logged s"
    using r
  proof (cases rule: add_field_Return_cases)
    case (1 t' l)
    then show ?thesis using o1 by simp
  next
    case (2 t' l)
    with t have "resize d ?s1 self (Some n) False = Return () s'" using n by simp
    then show ?thesis
      by (elim resize_Some_Return) (simp add: o1 n)
  qed
  then show "objs s' self = Table ?t1"
    and "resizes n ((objs s)(self := Table ?t1)) (objs s')"
    and "fresh s' = fresh s" and "logged s' = logged s"
    by (simp_all add: o1)
qed

lemma resizes_same_size_table:
  assumes "resizes n h h'" "h a = Table u" "size_attr u = Some n"
  shows "h' a = Table u"
  using resizes_at [OF assms(1), of a] assms(2,3) by (auto simp: resized_to_def)

lemma join_loop_same_size:
  assumes "objs s other = Table u" "size_attr u = Some n"
    and "objs s self = Table t" "size_attr t = Some n"
    and "join_loop d s self other names w = Return () s'"
  shows "objs s' other = Table u \<and>
         (\<exists>t'. objs s' self = Table t' \<and> size_attr t' = Some n \<and> loc t' = loc t \<and>
               (\<forall>name. map_of (cols t') name =
                         (if name \<in> set names then map_of (cols u) name else map_of (cols t) name))) \<and>
         set names \<subseteq> set (keys u) \<and> fresh s' = fresh s \<and> logged s' = logged s"
  using assms
proof (induction names arbitrary: s t)
  case Nil
  then show ?case by simp
next
  case (Cons name names)
  from Cons.prems(5) obtain a where a: "getitem s other name = Some a"
    by (cases "getitem s other name") auto
  then have ua: "map_of (cols u) name = Some a" using Cons.prems(1) by (simp add: getitem_def)
  from Cons.prems(5) a obtain s1 where s1: "add_field d s self name a False w = Return () s1"
    and rest: "join_loop d s1 self other names w = Return () s'"
    by (auto simp: add_column_def split: outcome.splits)
  let ?t1 = "t\<lparr>cols := AList.update name a (cols t)\<rparr>"
  note A = add_field_same_size [OF Cons.prems(3,4) s1]
  have other1: "objs s1 other = Table u"
  proof (cases "other = self")
    case True
    then have "t = u" using Cons.prems(1,3) by simp
    then have "?t1 = u" using ua by (simp add: update_triv)
    then show ?thesis using A(1) True by simp
  next
    case False
    then have "((objs s)(self := Table ?t1)) other = Table u" using Cons.prems(1) by simp
    then show ?thesis using resizes_same_size_table [OF A(2) _ Cons.prems(2)] by blast
  qed
  have t1: "size_attr ?t1 = Some n" using Cons.prems(4) by simp
  from Cons.IH [OF other1 Cons.prems(2) A(1) t1 rest]
  obtain t' where IH: "objs s' other = Table u" "objs s' self = Table t'" "size_attr t' = Some n"
      "loc t' = loc ?t1"
      "\<forall>nm. map_of (cols t') nm = (if nm \<in> set names then map_of (cols u) nm else map_of (cols ?t1) nm)"
      "set names \<subseteq> set (keys u)" "fresh s' = fresh s1" "logged s' = logged s1"
    by blast
  have "\<forall>nm. map_of (cols t') nm =
              (if nm \<in> set (name # names) then map_of (cols u) nm else map_of (cols t) nm)"
    using IH(5) ua by (auto simp: update_conv')
  moreover have "name \<in> set (keys u)"
    using ua by (auto simp: keys_def dest: map_of_SomeD intro: rev_image_eqI)
  ultimately show ?case
    using IH A(3,4) by auto
qed

lemma add_field_fitting:
  assumes "objs s self = Table t" "size_attr t = Some n" "valid_len n"
    and "dunder_len (objs (struct_add_field s self name a) a) = Some (Some n)"
    and "hasattr_len (objs s a)"
  shows "add_field d s self name a u w = Return () (struct_add_field s self name a)"
  using assms by (simp add: add_field_unfold py_len_dunder)

lemma join_loop_total:
  assumes "objs s other = Table u" "size_attr u = Some n" "valid_len n" "equal_length (objs s) u"
    and "objs s self = Table t" "size_attr t = Some n"
    and "set names \<subseteq> set (keys u)"
  shows "\<exists>s'. join_loop d s self other names w = Return () s'"
  using assms
proof (induction names arbitrary: s t)
  case Nil
  show ?case by simp
next
  case (Cons name names)
  from Cons.prems(7) obtain a where ua: "map_of (cols u) name = Some a"
    by (cases "map_of (cols u) name") (auto simp: keys_def map_of_eq_None_iff)
  then have a: "getitem s other name = Some a" using Cons.prems(1) by (simp add: getitem_def)
  have ain: "a \<in> snd ` set (cols u)" using ua by (auto dest: map_of_SomeD intro: rev_image_eqI)
  then have la: "dunder_len (objs s a) = Some (Some n)"
    using Cons.prems(2,4) by (auto simp: equal_length_def)
  let ?t1 = "t\<lparr>cols := AList.update name a (cols t)\<rparr>"
  let ?s1 = "struct_add_field s self name a"
  have o1: "objs ?s1 = (objs s)(self := Table ?t1)" using Cons.prems(5) by (rule struct_add_field_objs)
  have keep: "dunder_len (objs ?s1 c) = dunder_len (objs s c)" for c
    using Cons.prems(5) by (simp add: o1)
  have step: "add_field d s self name a False w = Return () ?s1"
    using Cons.prems(5,6,3) la keep
    by (intro add_field_fitting) (simp_all add: hasattr_len_def)
  have other1: "objs ?s1 other = Table u"
  proof (cases "other = self")
    case True
    then have "t = u" using Cons.prems(1,5) by simp
    then have "?t1 = u" using ua by (simp add: update_triv)
    then show ?thesis using True by (simp add: o1)
  next
    case False
    then show ?thesis using Cons.prems(1) by (simp add: o1)
  qed
  have eq1: "equal_length (objs ?s1) u"
    using Cons.prems(4) keep by (simp add: equal_length_def)
  have "\<exists>s'. join_loop d ?s1 self other names w = Return () s'"
    using Cons.prems(7)
    by (intro Cons.IH [OF other1 Cons.prems(2,3) eq1, of ?t1]) (simp_all add: o1 Cons.prems(6))
  then show ?case using a step by (simp add: add_column_def)
qed

lemma join_undefined_state_reached:
  "add_field (Suc (Suc 0))
     \<lparr>objs = (\<lambda>_. Scalar)
        (0 := Table \<lparr>size_attr = Some 3, loc = 0, cols = []\<rparr>,
         1 := Table \<lparr>size_attr = Some 3, loc = 0, cols = []\<rparr>,
         2 := Table \<lparr>size_attr = Some 1024, loc = 0, cols = []\<rparr>,
         3 := Array [1, 2, 3]),
      logged = [], fresh = 4\<rparr> 1 ''x'' 2 False True =
   Return ()
     \<lparr>objs = (\<lambda>_. Scalar)
        (0 := Table \<lparr>size_attr = Some 3, loc = 0, cols = []\<rparr>,
         1 := Table \<lparr>size_attr = Some 3, loc = 0, cols = [(''x'', 2)]\<rparr>,
         2 := Table \<lparr>size_attr = Some 3, loc = 0, cols = []\<rparr>,
         3 := Array [1, 2, 3]),
      logged = [], fresh = 4\<rparr>"
  "add_field (Suc (Suc 0))
     \<lparr>objs = (\<lambda>_. Scalar)
        (0 := Table \<lparr>size_attr = Some 3, loc = 0, cols = []\<rparr>,
         1 := Table \<lparr>size_attr = Some 3, loc = 0, cols = [(''x'', 2)]\<rparr>,
         2 := Table \<lparr>size_attr = Some 3, loc = 0, cols = []\<rparr>,
         3 := Array [1, 2, 3]),
      logged = [], fresh = 4\<rparr> 1 ''y'' 3 False True =
   Return ()
     \<lparr>objs = (\<lambda>_. Scalar)
        (0 := Table \<lparr>size_attr = Some 3, loc = 0, cols = []\<rparr>,
         1 := Table \<lparr>size_attr = Some 3, loc = 0, cols = [(''x'', 2), (''y'', 3)]\<rparr>,
         2 := Table \<lparr>size_attr = Some 3, loc = 0, cols = []\<rparr>,
         3 := Array [1, 2, 3]),
      logged = [], fresh = 4\<rparr>"
  "resize (Suc 0)
     \<lparr>objs = (\<lambda>_. Scalar)
        (0 := Table \<lparr>size_attr = Some 3, loc = 0, cols = []\<rparr>,
         1 := Table \<lparr>size_attr = Some 3, loc = 0, cols = [(''x'', 2), (''y'', 3)]\<rparr>,
         2 := Table \<lparr>size_attr = Some 3, loc = 0, cols = []\<rparr>,
         3 := Array [1, 2, 3]),
      logged = [], fresh = 4\<rparr> 2 None False =
   Return () join_undefined_state"
  by (simp_all add: add_field_def hasattr_len_def struct_add_field_def py_len_def maxsize_def
      obj_resize_def set_size_def join_undefined_state_def fun_upd_twist)

text \<open>
  Claim C7, as stated, fails.  In \<open>join_undefined_state\<close> two tables \<^verbatim>\<open>t\<close> and \<^verbatim>\<open>u\<close>
  have size 3; \<^verbatim>\<open>u\<close> holds a table \<^verbatim>\<open>w\<close> under \<^verbatim>\<open>x\<close> and an array of length 3 under
  \<^verbatim>\<open>y\<close>, and \<^verbatim>\<open>w.resize()\<close> has left the size of \<^verbatim>\<open>w\<close>, which has no column, at
  \<^verbatim>\<open>None\<close>.  \<^verbatim>\<open>t.join(u)\<close> stores \<^verbatim>\<open>w\<close> under \<^verbatim>\<open>x\<close> and raises \<^verbatim>\<open>TypeError\<close> at
  \<^verbatim>\<open>len(obj)\<close> on line 142: the column \<^verbatim>\<open>y\<close> of the other table is never added.
\<close>

theorem join_semantics_counterexample:
  "objs join_undefined_state 0 = Table \<lparr>size_attr = Some 3, loc = 0, cols = []\<rparr> \<and>
   objs join_undefined_state 1 = Table \<lparr>size_attr = Some 3, loc = 0, cols = [(''x'', 2), (''y'', 3)]\<rparr> \<and>
   join (Suc 0) join_undefined_state 0 1 None True =
     Raise TypeError
       (join_undefined_state\<lparr>objs := (objs join_undefined_state)
          (0 := Table \<lparr>size_attr = Some 3, loc = 0, cols = [(''x'', 2)]\<rparr>)\<rparr>)"
  by (simp add: join_undefined_state_def join_def keys_def getitem_def add_column_def add_field_def
      hasattr_len_def struct_add_field_def py_len_def maxsize_def)

text \<open>
  Claim C7, amended.  For two tables of the same integer size, a \<^verbatim>\<open>join\<close> that returns leaves
  in \<^verbatim>\<open>self\<close>, under every joined name, the address that \<^verbatim>\<open>other_table\<close> holds under
  that name: the very same object, no copy.  The names joined are all columns of
  \<^verbatim>\<open>other_table\<close> when \<^verbatim>\<open>cols\<close> is \<^verbatim>\<open>None\<close>, and the listed ones otherwise; the other
  columns of \<^verbatim>\<open>self\<close> stay as they were, and so do its size and \<^verbatim>\<open>loc\<close>.  The object
  \<^verbatim>\<open>other_table\<close> (columns, size, \<^verbatim>\<open>loc\<close>) is unchanged.  The call returns when the
  common size is a valid length (from 0 to \<^verbatim>\<open>sys.maxsize\<close>), the names are columns of
  \<^verbatim>\<open>other_table\<close> and every column of \<^verbatim>\<open>other_table\<close> has that length.
\<close>

theorem join_semantics:
  assumes "objs s self = Table t" and "objs s other = Table u"
    and "size_attr t = Some n" and "size_attr u = Some n"
    and "names = (case cols_arg of None \<Rightarrow> keys u | Some ns \<Rightarrow> ns)"
  shows "(\<forall>s'. join d s self other cols_arg do_warn = Return () s' \<longrightarrow>
            objs s' other = Table u \<and>
            (\<exists>t'. objs s' self = Table t' \<and> size_attr t' = Some n \<and> loc t' = loc t \<and>
                  (\<forall>name \<in> set names. map_of (cols t') name = map_of (cols u) name \<and>
                                        map_of (cols u) name \<noteq> None) \<and>
                  (\<forall>name. name \<notin> set names \<longrightarrow> map_of (cols t') name = map_of (cols t) name))) \<and>
         (valid_len n \<and> equal_length (objs s) u \<and> set names \<subseteq> set (keys u) \<longrightarrow>
            (\<exists>s'. join d s self other cols_arg do_warn = Return () s'))"
proof -
  define s0 where "s0 = (if loc u \<noteq> loc t \<and> do_warn then warn (LocWarning (loc u) (loc t)) s else s)"
  have o0: "objs s0 = objs s" by (simp add: s0_def warn_def)
  have j: "join d s self other cols_arg do_warn = join_loop d s0 self other names do_warn"
    using assms(1,2,5) by (simp add: join_def s0_def)
  have part1: "objs s' other = Table u \<and>
            (\<exists>t'. objs s' self = Table t' \<and> size_attr t' = Some n \<and> loc t' = loc t \<and>
                  (\<forall>name \<in> set names. map_of (cols t') name = map_of (cols u) name \<and>
                                        map_of (cols u) name \<noteq> None) \<and>
                  (\<forall>name. name \<notin> set names \<longrightarrow> map_of (cols t') name = map_of (cols t) name))"
    if r: "join_loop d s0 self other names do_warn = Return () s'" for s'
  proof -
    from join_loop_same_size [OF _ assms(4) _ assms(3) r] assms(1,2)
    obtain t' where L: "objs s' other = Table u" "objs s' self = Table t'" "size_attr t' = Some n"
      "loc t' = loc t"
      "\<forall>name. map_of (cols t') name = (if name \<in> set names then map_of (cols u) name else map_of (cols t) name)"
      "set names \<subseteq> set (keys u)"
      by (auto simp: o0)
    have "\<forall>name \<in> set names. map_of (cols u) name \<noteq> None"
      using L(6) by (auto simp: keys_def map_of_eq_None_iff)
    then show ?thesis using L by auto
  qed
  have part2: "\<exists>s'. join_loop d s0 self other names do_warn = Return () s'"
    if "valid_len n" "equal_length (objs s) u" "set names \<subseteq> set (keys u)"
    using that assms(1-4) by (intro join_loop_total [where u=u and n=n and t=t]) (simp_all add: o0)
  show ?thesis unfolding j using part1 part2 by blast
qed

theorem join_semantics_witness:
  "(\<exists>s' t'. join 0 join_state 0 1 None True = Return () s' \<and>
          objs s' 1 = Table \<lparr>size_attr = Some 3, loc = 0, cols = [(''b'', 3), (''c'', 4)]\<rparr> \<and>
          objs s' 0 = Table t' \<and> size_attr t' = Some 3 \<and> loc t' = 0 \<and>
          map_of (cols t') ''a'' = Some 2 \<and> map_of (cols t') ''b'' = Some 3 \<and>
          map_of (cols t') ''c'' = Some 4) \<and>
   (\<exists>s' t'. join 0 join_state 0 1 (Some [''c'']) True = Return () s' \<and>
          objs s' 1 = Table \<lparr>size_attr = Some 3, loc = 0, cols = [(''b'', 3), (''c'', 4)]\<rparr> \<and>
          objs s' 0 = Table t' \<and> size_attr t' = Some 3 \<and> loc t' = 0 \<and>
          map_of (cols t') ''a'' = Some 2 \<and> map_of (cols t') ''b'' = None \<and>
          map_of (cols t') ''c'' = Some 4)"
proof -
  let ?t = "\<lparr>size_attr = Some 3, loc = 0, cols = [(''a'', 2)]\<rparr>"
  let ?u = "\<lparr>size_attr = Some 3, loc = 0, cols = [(''b'', 3), (''c'', 4)]\<rparr>"
  have t: "objs join_state 0 = Table ?t" and u: "objs join_state 1 = Table ?u"
    by (simp_all add: join_state_def)
  have e: "equal_length (objs join_state) ?u" "valid_len 3"
    by (simp_all add: equal_length_def join_state_def valid_len_def maxsize_def)
  note J = join_semantics [OF t u, of 3 "[''b'', ''c'']" None 0 True]
  have J': "(\<forall>s'. join 0 join_state 0 1 None True = Return () s' \<longrightarrow>
            objs s' 1 = Table ?u \<and>
            (\<exists>t'. objs s' 0 = Table t' \<and> size_attr t' = Some 3 \<and> loc t' = 0 \<and>
                  (\<forall>name \<in> set [''b'', ''c'']. map_of (cols t') name = map_of (cols ?u) name \<and>
                                        map_of (cols ?u) name \<noteq> None) \<and>
                  (\<forall>name. name \<notin> set [''b'', ''c''] \<longrightarrow> map_of (cols t') name = map_of (cols ?t) name)))"
     and J'': "\<exists>s'. join 0 join_state 0 1 None True = Return () s'"
    using J e by (simp_all add: keys_def)
  from J'' obtain s' where s': "join 0 join_state 0 1 None True = Return () s'" by blast
  with J' obtain t' where "objs s' 1 = Table ?u" "objs s' 0 = Table t'" "size_attr t' = Some 3" "loc t' = 0"
    "\<forall>name \<in> set [''b'', ''c'']. map_of (cols t') name = map_of (cols ?u) name"
    "\<forall>name. name \<notin> set [''b'', ''c''] \<longrightarrow> map_of (cols t') name = map_of (cols ?t) name"
    by blast
  then have 1: "\<exists>s' t'. join 0 join_state 0 1 None True = Return () s' \<and>
          objs s' 1 = Table ?u \<and>
          objs s' 0 = Table t' \<and> size_attr t' = Some 3 \<and> loc t' = 0 \<and>
          map_of (cols t') ''a'' = Some 2 \<and> map_of (cols t') ''b'' = Some 3 \<and>
          map_of (cols t') ''c'' = Some 4"
    using s' by auto
  note K = join_semantics [OF t u, of 3 "[''c'']" "Some [''c'']" 0 True]
  have K': "(\<forall>s'. join 0 join_state 0 1 (Some [''c'']) True = Return () s' \<longrightarrow>
            objs s' 1 = Table ?u \<and>
            (\<exists>t'. objs s' 0 = Table t' \<and> size_attr t' = Some 3 \<and> loc t' = 0 \<and>
                  (\<forall>name \<in> set [''c'']. map_of (cols t') name = map_of (cols ?u) name \<and>
                                        map_of (cols ?u) name \<noteq> None) \<and>
                  (\<forall>name. name \<notin> set [''c''] \<longrightarrow> map_of (cols t') name = map_of (cols ?t) name)))"
     and K'': "\<exists>s'. join 0 join_state 0 1 (Some [''c'']) True = Return () s'"
    using K e by (simp_all add: keys_def)
  from K'' obtain r' where r': "join 0 join_state 0 1 (Some [''c'']) True = Return () r'" by blast
  with K' obtain q' where "objs r' 1 = Table ?u" "objs r' 0 = Table q'" "size_attr q' = Some 3" "loc q' = 0"
    "\<forall>name \<in> set [''c'']. map_of (cols q') name = map_of (cols ?u) name"
    "\<forall>name. name \<notin> set [''c''] \<longrightarrow> map_of (cols q') name = map_of (cols ?t) name"
    by blast
  then have 2: "\<exists>s' t'. join 0 join_state 0 1 (Some [''c'']) True = Return () s' \<and>
          objs s' 1 = Table ?u \<and>
          objs s' 0 = Table t' \<and> size_attr t' = Some 3 \<and> loc t' = 0 \<and>
          map_of (cols t') ''a'' = Some 2 \<and> map_of (cols t') ''b'' = None \<and>
          map_of (cols t') ''c'' = Some 4"
    using r' by auto
  from 1 2 show ?thesis by (rule conjI)
qed

section \<open>Adding a field\<close>

lemma struct_add_field_len [simp]:
  "dunder_len (objs (struct_add_field s self name ob) c) = dunder_len (objs s c)"
  by (auto simp: struct_add_field_def split: pyobj.splits)

lemma struct_add_field_py_len [simp]:
  "py_len (objs (struct_add_field s self name ob) c) = py_len (objs s c)"
  by (simp add: py_len_def maxsize_def)


lemma resizable_self_upd:
  "h self = Table t \<Longrightarrow> resizable d (h(self := Table (t\<lparr>cols := cs\<rparr>))) self \<Longrightarrow> d \<noteq> 0"
  by (cases d) auto


lemma undefined_size_state_reached:
  "new_table 0 init_state None None =
     Return 0 (init_state\<lparr>objs := (objs init_state)(0 := Table \<lparr>size_attr = Some 1024, loc = 0, cols = []\<rparr>), fresh := 1\<rparr>)"
  "new_table 0 (init_state\<lparr>objs := (objs init_state)(0 := Table \<lparr>size_attr = Some 1024, loc = 0, cols = []\<rparr>), fresh := 1\<rparr>) None None =
     Return 1 (init_state\<lparr>objs := (objs init_state)(0 := Table \<lparr>size_attr = Some 1024, loc = 0, cols = []\<rparr>,
                                                   1 := Table \<lparr>size_attr = Some 1024, loc = 0, cols = []\<rparr>), fresh := 2\<rparr>)"
  "resize (Suc 0) (init_state\<lparr>objs := (objs init_state)(0 := Table \<lparr>size_attr = Some 1024, loc = 0, cols = []\<rparr>,
                                                   1 := Table \<lparr>size_attr = Some 1024, loc = 0, cols = []\<rparr>), fresh := 2\<rparr>) 1 None False =
     Return () undefined_size_state"
  by (simp_all add: new_table_def init_no_columns init_state_def undefined_size_state_def set_size_def)




section \<open>Columns of equal length\<close>

lemma resize_equal_length:
  assumes "resize d s self new_size w = Return () s'"
  shows "\<exists>t'. objs s' self = Table t' \<and> equal_length (objs s') t'"
proof -
  obtain t where t: "objs s self = Table t" using assms resize_Return_table by blast
  have some: ?thesis if "resize d s self (Some n) w = Return () s'" for n
    using that by (elim resize_Some_Return) (auto simp: equal_length_def t)
  show ?thesis
  proof (cases new_size)
    case (Some n)
    then show ?thesis using assms some by blast
  next
    case None
    show ?thesis
    proof (cases "cols t")
      case Nil
      then show ?thesis using assms None t
        by (cases d) (auto simp: set_size_def equal_length_def)
    next
      case (Cons p rest)
      obtain f a where "p = (f, a)" by (cases p)
      with Cons have c: "cols t = (f, a) # rest" by simp
      from assms None obtain l where "resize d s self (Some l) w = Return () s'"
        using resize_None_Cons_Return [OF _ t c] by blast
      then show ?thesis using some by blast
    qed
  qed
qed

lemma set_loc_len [simp]: "dunder_len (objs (set_loc s self l) c) = dunder_len (objs s c)"
  by (auto simp: set_loc_def split: pyobj.splits)

lemma init_equal_length:
  assumes "init d s self size_arg col_dict = Return () s'"
  shows "\<exists>t'. objs s' self = Table t' \<and> equal_length (objs s') t'"
proof (cases "col_dict = None \<or> col_dict = Some []")
  case True
  then show ?thesis using assms by (auto simp: init_no_columns equal_length_def)
next
  case False
  then obtain kv kvs where cd: "col_dict = Some (kv # kvs)"
    by (cases col_dict) (auto simp: neq_Nil_conv)
  define s0 where "s0 = s\<lparr>objs := (objs s)(self := Table \<lparr>size_attr = None, loc = 0,
                  cols = dict_update [] (kv # kvs)\<rparr>)\<rparr>"
  from assms obtain s1 where r: "resize d s0 self size_arg (size_arg = None) = Return () s1"
    and s': "s' = set_loc s1 self 0"
    by (auto simp: init_def cd s0_def split: outcome.splits)
  from resize_equal_length [OF r] obtain t1 where t1: "objs s1 self = Table t1" "equal_length (objs s1) t1"
    by blast
  have "objs s' self = Table (t1\<lparr>loc := 0\<rparr>)" using t1(1) by (simp add: s' set_loc_objs)
  moreover have "equal_length (objs s') (t1\<lparr>loc := 0\<rparr>)"
    using t1(2) by (simp add: equal_length_def s')
  ultimately show ?thesis by blast
qed

lemma update_values: "snd ` set (AList.update k v al) \<subseteq> insert v (snd ` set al)"
  by (induction al) auto

lemma add_field_equal_length:
  assumes t: "objs s self = Table t" and e: "equal_length (objs s) t"
    and r: "add_field d s self name ob u w = Return () s'"
  shows "\<exists>t'. objs s' self = Table t' \<and> equal_length (objs s') t'"
  using r
proof (cases rule: add_field_Return_cases)
  case (1 t0 l)
  let ?t1 = "t\<lparr>cols := AList.update name ob (cols t)\<rparr>"
  have t0: "t0 = t" using t 1(1) by simp
  have l: "dunder_len (objs s ob) = Some (size_attr t)"
    using 1(3,4) t0 by (simp add: py_len_Inr)
  have "objs s' self = Table ?t1" using 1(5) t by (simp add: struct_add_field_objs)
  moreover have "dunder_len (objs s' c) = Some (size_attr ?t1)" if "c \<in> snd ` set (cols ?t1)" for c
  proof -
    from that update_values [of name ob "cols t"] have "c = ob \<or> c \<in> snd ` set (cols t)" by auto
    then show ?thesis using e l by (auto simp: equal_length_def 1(5))
  qed
  then have "equal_length (objs s') ?t1" unfolding equal_length_def by blast
  ultimately show ?thesis by blast
next
  case (2 t0 l)
  then show ?thesis using resize_equal_length by blast
qed

lemma join_loop_equal_length:
  assumes "objs s self = Table t" "equal_length (objs s) t"
    and "join_loop d s self other names w = Return () s'"
  shows "\<exists>t'. objs s' self = Table t' \<and> equal_length (objs s') t'"
  using assms
proof (induction names arbitrary: s t)
  case Nil
  then show ?case by auto
next
  case (Cons name names)
  from Cons.prems(3) obtain a s1 where s1: "add_field d s self name a False w = Return () s1"
    and rest: "join_loop d s1 self other names w = Return () s'"
    by (auto simp: add_column_def split: option.splits outcome.splits)
  from add_field_equal_length [OF Cons.prems(1,2) s1]
  obtain t1 where "objs s1 self = Table t1" "equal_length (objs s1) t1" by blast
  from Cons.IH [OF this rest] show ?case .
qed

lemma join_equal_length:
  assumes "objs s self = Table t" "equal_length (objs s) t"
    and "join d s self other cols_arg w = Return () s'"
  shows "\<exists>t'. objs s' self = Table t' \<and> equal_length (objs s') t'"
proof -
  obtain u where u: "objs s other = Table u"
    using assms(1,3) by (cases "objs s other") (auto simp: join_def)
  define s0 where "s0 = (if loc u \<noteq> loc t \<and> w then warn (LocWarning (loc u) (loc t)) s else s)"
  have o: "objs s0 = objs s" by (simp add: s0_def warn_def)
  have "join d s self other cols_arg w =
        join_loop d s0 self other (case cols_arg of None \<Rightarrow> keys u | Some names \<Rightarrow> names) w"
    using assms(1) u by (simp add: join_def s0_def)
  then have j: "join_loop d s0 self other (case cols_arg of None \<Rightarrow> keys u | Some names \<Rightarrow> names) w = Return () s'"
    using assms(3) by simp
  show ?thesis using join_loop_equal_length [OF _ _ j] assms(1,2) o by simp
qed

text \<open>
  Claim C1, as stated, fails.  Both tables of \<open>shared_state\<close> have columns of equal
  length.  \<^verbatim>\<open>add_field\<close> on the second table resizes the array it shares with the first
  to 5, so that the first table, of size 3, has a column of length 5; a following
  \<^verbatim>\<open>add_field\<close> on the first table, of an array of length 3, finds size and length equal,
  resizes nothing, and leaves that table with columns of length 5 and 3.
\<close>

theorem equal_length_columns_counterexample:
  "equal_length (objs shared_state) \<lparr>size_attr = Some 3, loc = 0, cols = [(''a'', 2)]\<rparr> \<and>
   equal_length (objs shared_state) \<lparr>size_attr = Some 5, loc = 0, cols = []\<rparr> \<and>
   add_field (Suc 0) shared_state 1 ''a'' 2 False True = Return () shared_state_2 \<and>
   objs shared_state_2 0 = Table \<lparr>size_attr = Some 3, loc = 0, cols = [(''a'', 2)]\<rparr> \<and>
   \<not> equal_length (objs shared_state_2) \<lparr>size_attr = Some 3, loc = 0, cols = [(''a'', 2)]\<rparr> \<and>
   add_field (Suc 0) shared_state_2 0 ''c'' 3 False True = Return () shared_state_3 \<and>
   objs shared_state_3 0 = Table \<lparr>size_attr = Some 3, loc = 0, cols = [(''a'', 2), (''c'', 3)]\<rparr> \<and>
   \<not> equal_length (objs shared_state_3) \<lparr>size_attr = Some 3, loc = 0, cols = [(''a'', 2), (''c'', 3)]\<rparr>"
  by (simp add: shared_state_def shared_state_2_def shared_state_3_def equal_length_def
      add_field_def hasattr_len_def struct_add_field_def py_len_def maxsize_def obj_resize_def set_size_def
      nd_resize_def numeral_2_eq_2 fun_upd_twist)

text \<open>
  Claim C1, amended.  Construction and \<^verbatim>\<open>resize\<close> establish the invariant for the table
  they act on: when they return, every column of that table has the length that its
  \<^verbatim>\<open>size\<close> attribute gives, which is also what \<^verbatim>\<open>__len__\<close> returns.
  \<^verbatim>\<open>add_field\<close>, \<^verbatim>\<open>add_column\<close> and \<^verbatim>\<open>join\<close> preserve it for the table they act on:
  if it holds before a call that returns, it holds after.  Nothing is said about other
  tables that share a column object with that table.
\<close>

theorem equal_length_columns:
  "(\<forall>a s'. new_table d s size_arg col_dict = Return a s' \<longrightarrow>
      (\<exists>t'. objs s' a = Table t' \<and> equal_length (objs s') t' \<and> len_method t' = size_attr t')) \<and>
   (\<forall>s'. resize d s self new_size do_warn = Return () s' \<longrightarrow>
      (\<exists>t'. objs s' self = Table t' \<and> equal_length (objs s') t' \<and> len_method t' = size_attr t')) \<and>
   (\<forall>t s'. objs s self = Table t \<and> equal_length (objs s) t \<and>
           add_field d s self name ob use_obj_size do_warn = Return () s' \<longrightarrow>
      (\<exists>t'. objs s' self = Table t' \<and> equal_length (objs s') t' \<and> len_method t' = size_attr t')) \<and>
   (\<forall>t s'. objs s self = Table t \<and> equal_length (objs s) t \<and>
           add_column d s self name ob use_obj_size do_warn = Return () s' \<longrightarrow>
      (\<exists>t'. objs s' self = Table t' \<and> equal_length (objs s') t' \<and> len_method t' = size_attr t')) \<and>
   (\<forall>t s'. objs s self = Table t \<and> equal_length (objs s) t \<and>
           join d s self other cols_arg do_warn = Return () s' \<longrightarrow>
      (\<exists>t'. objs s' self = Table t' \<and> equal_length (objs s') t' \<and> len_method t' = size_attr t'))"
proof -
  have "\<exists>t'. objs s' a = Table t' \<and> equal_length (objs s') t'"
    if "new_table d s size_arg col_dict = Return a s'" for a s'
    using that init_equal_length [of d "s\<lparr>fresh := Suc (fresh s)\<rparr>" "fresh s" size_arg col_dict s']
    by (auto simp: new_table_def split: outcome.splits)
  then show ?thesis
    using resize_equal_length [of d s self new_size do_warn]
      add_field_equal_length [of s self _ d name ob use_obj_size do_warn]
      join_equal_length [of s self _ d other cols_arg do_warn]
    unfolding add_column_def len_method_def
    by blast
qed

theorem equal_length_columns_witness:
  "(\<exists>a s' t'. new_table (Suc 0) shared_state None (Some [(''x'', 2), (''y'', 3)]) = Return a s' \<and>
       objs s' a = Table t' \<and> equal_length (objs s') t') \<and>
   (\<exists>s' t'. resize (Suc 0) shared_state 0 (Some 5) True = Return () s' \<and>
       objs s' 0 = Table t' \<and> equal_length (objs s') t') \<and>
   (\<exists>s' t'. add_field (Suc 0) shared_state 1 ''a'' 2 False True = Return () s' \<and>
       objs s' 1 = Table t' \<and> equal_length (objs s') t') \<and>
   (\<exists>s' t'. add_column (Suc 0) shared_state 1 ''a'' 2 True True = Return () s' \<and>
       objs s' 1 = Table t' \<and> equal_length (objs s') t') \<and>
   (\<exists>s' t'. join (Suc 0) shared_state 1 0 None True = Return () s' \<and>
       objs s' 1 = Table t' \<and> equal_length (objs s') t')"
proof -
  have t1: "objs shared_state 1 = Table \<lparr>size_attr = Some 5, loc = 0, cols = []\<rparr>"
    and e1: "equal_length (objs shared_state) \<lparr>size_attr = Some 5, loc = 0, cols = []\<rparr>"
    by (simp_all add: shared_state_def equal_length_def)
  have r1: "\<exists>a s'. new_table (Suc 0) shared_state None (Some [(''x'', 2), (''y'', 3)]) = Return a s'"
    by (simp add: new_table_def init_def dict_update_def shared_state_def py_len_def maxsize_def
        set_size_def set_loc_def)
  have r2: "\<exists>s'. resize (Suc 0) shared_state 0 (Some 5) True = Return () s'"
    by (simp add: shared_state_def py_len_def maxsize_def obj_resize_def warn_def)
  have r3: "\<exists>s'. add_field (Suc 0) shared_state 1 ''a'' 2 False True = Return () s'"
    by (simp add: shared_state_def add_field_def hasattr_len_def struct_add_field_def py_len_def maxsize_def
        obj_resize_def)
  have r4: "\<exists>s'. add_column (Suc 0) shared_state 1 ''a'' 2 True True = Return () s'"
    by (simp add: shared_state_def add_column_def add_field_def hasattr_len_def struct_add_field_def
        py_len_def maxsize_def obj_resize_def)
  have r5: "\<exists>s'. join (Suc 0) shared_state 1 0 None True = Return () s'"
    by (simp add: shared_state_def join_def keys_def getitem_def add_column_def add_field_def
        hasattr_len_def struct_add_field_def py_len_def maxsize_def obj_resize_def)
  note E = equal_length_columns [where d="Suc 0" and s=shared_state and size_arg=None
        and col_dict="Some [(''x'', 2), (''y'', 3)]" and new_size="Some 5" and do_warn=True
        and name="''a''" and ob=2 and other=0 and cols_arg=None]
  note E0 = E [where self=0 and use_obj_size=False]
  note E1 = E [where self=1 and use_obj_size=False]
  note E2 = E [where self=1 and use_obj_size=True]
  have c1: "\<exists>a s' t'. new_table (Suc 0) shared_state None (Some [(''x'', 2), (''y'', 3)]) = Return a s' \<and>
       objs s' a = Table t' \<and> equal_length (objs s') t'"
    using r1 E0 [THEN conjunct1] by blast
  have c2: "\<exists>s' t'. resize (Suc 0) shared_state 0 (Some 5) True = Return () s' \<and>
       objs s' 0 = Table t' \<and> equal_length (objs s') t'"
    using r2 E0 [THEN conjunct2, THEN conjunct1] by blast
  have c3: "\<exists>s' t'. add_field (Suc 0) shared_state 1 ''a'' 2 False True = Return () s' \<and>
       objs s' 1 = Table t' \<and> equal_length (objs s') t'"
    using r3 t1 e1 E1 [THEN conjunct2, THEN conjunct2, THEN conjunct1] by blast
  have c4: "\<exists>s' t'. add_column (Suc 0) shared_state 1 ''a'' 2 True True = Return () s' \<and>
       objs s' 1 = Table t' \<and> equal_length (objs s') t'"
    using r4 t1 e1 E2 [THEN conjunct2, THEN conjunct2, THEN conjunct2, THEN conjunct1] by blast
  have c5: "\<exists>s' t'. join (Suc 0) shared_state 1 0 None True = Return () s' \<and>
       objs s' 1 = Table t' \<and> equal_length (objs s') t'"
    using r5 t1 e1 E2 [THEN conjunct2, THEN conjunct2, THEN conjunct2, THEN conjunct2] by blast
  show ?thesis using c1 c2 c3 c4 c5 by (intro conjI)
qed

section \<open>Warnings of resize\<close>

lemma self_in_reach [simp]: "a \<in> reach d h a"
  by (cases d) simp_all

lemma reach_cong:
  "(\<And>a. cols_of (h' a) = cols_of (h a)) \<Longrightarrow> reach d h' a = reach d h a"
  by (induction d arbitrary: a) simp_all

lemma resizes_reach: "resizes n h h' \<Longrightarrow> reach d h' a = reach d h a"
  by (rule reach_cong) (rule resizes_cols)

lemma obj_resize_frame:
  assumes "frame_spec d sub" "b \<notin> reach d (objs s) a"
  shows "objs (final (obj_resize sub s a n)) b = objs s b"
proof -
  have "b \<noteq> a" using assms(2) by auto
  then show ?thesis
    using assms by (cases "objs s a") (auto simp: obj_resize_def frame_spec_def)
qed

lemma resize_fields_frame:
  assumes spec: "\<And>n. resize_spec n sub" and fr: "frame_spec d sub"
  shows "b \<notin> (\<Union>c \<in> snd ` set cs. reach d (objs s) c) \<Longrightarrow>
         objs (final (resize_fields sub cs s m w)) b = objs s b"
proof (induction cs arbitrary: s m)
  case Nil
  show ?case by simp
next
  case (Cons p cs)
  obtain field a where p: "p = (field, a)" by (cases p)
  from Cons.prems have ba: "b \<notin> reach d (objs s) a"
    and brest: "b \<notin> (\<Union>c \<in> snd ` set cs. reach d (objs s) c)"
    by (auto simp: p)
  show ?case
  proof (cases "py_len (objs s a)")
    case (Inl e)
    then show ?thesis by (simp add: p)
  next
    case (Inr l)
    show ?thesis
    proof (cases m)
      case None
      then show ?thesis using Inr Cons.IH [OF brest] by (simp add: p)
    next
      case (Some n)
      show ?thesis
      proof (cases "l = n")
        case True
        then show ?thesis using Inr Some Cons.IH [OF brest] by (simp add: p)
      next
        case False
        define s1 where "s1 = (if w then warn (ResizeWarning field l n) s else s)"
        have s1: "objs s1 = objs s" by (simp add: s1_def warn_def)
        have f1: "objs (final (obj_resize sub s1 a n)) b = objs s b"
          using obj_resize_frame [OF fr, of b s1 a n] ba by (simp add: s1)
        show ?thesis
        proof (cases "obj_resize sub s1 a n")
          case (Raise e s2)
          then show ?thesis using Inr Some False f1 by (simp add: p s1_def)
        next
          case (Return x s2)
          have rs: "resizes n (objs s) (objs s2)"
            using obj_resize_spec(1) [where n=n and s=s1 and a=a, OF spec] Return by (simp add: s1)
          have "b \<notin> (\<Union>c \<in> snd ` set cs. reach d (objs s2) c)"
            using brest by (simp add: resizes_reach [OF rs])
          from Cons.IH [OF this, of "Some n"] show ?thesis
            using Inr Some False Return f1 by (simp add: p s1_def)
        qed
      qed
    qed
  qed
qed

lemma set_size_other: "b \<noteq> a \<Longrightarrow> objs (set_size s a n) b = objs s b"
  by (auto simp: set_size_def split: pyobj.splits)

lemma frame_spec_resize: "frame_spec d (resize d)"
proof (induction d)
  case 0
  show ?case by (simp add: frame_spec_def)
next
  case (Suc d)
  show ?case
    unfolding frame_spec_def
  proof (intro allI impI)
    fix s :: state and a m w b
    assume b: "b \<notin> reach (Suc d) (objs s) a"
    show "objs (final (resize (Suc d) s a m w)) b = objs s b"
    proof (cases "objs s a")
      case (Table t)
      have ba: "b \<noteq> a" and bc: "b \<notin> (\<Union>c \<in> snd ` set (cols t). reach d (objs s) c)"
        using b Table by (auto simp: cols_of_def)
      note F = resize_fields_frame [OF resize_spec_resize Suc bc, of m w]
      show ?thesis
        using F Table ba
        by (cases "resize_fields (resize d) (cols t) s m w") (simp_all add: set_size_other)
    qed simp_all
  qed
qed

lemma resize_frame:
  "b \<notin> reach d (objs s) a \<Longrightarrow> objs (final (resize d s a m w)) b = objs s b"
  using frame_spec_resize [of d] unfolding frame_spec_def by blast

lemma independent_cong:
  "(\<And>a. reach d h' a = reach d h a) \<Longrightarrow> independent d h' cs = independent d h cs"
  by (induction cs) auto

lemma expected_warnings_cong:
  "(\<And>c. c \<in> snd ` set cs \<Longrightarrow> h' c = h c) \<Longrightarrow> expected_warnings h' n cs = expected_warnings h n cs"
  by (induction cs) auto

lemma resize_fields_logged:
  assumes spec: "\<And>n. resize_spec n sub" and fr: "frame_spec d sub"
  shows "independent d (objs s) cs \<Longrightarrow> resize_fields sub cs s (Some n) w = Return m s' \<Longrightarrow>
         logged s' = logged s @ (if w then expected_warnings (objs s) n cs else [])"
proof (induction cs arbitrary: s)
  case Nil
  then show ?case by simp
next
  case (Cons p cs)
  obtain field a where p: "p = (field, a)" by (cases p)
  from Cons.prems(1) have ind: "independent d (objs s) cs"
    and sep: "\<forall>c \<in> snd ` set cs. c \<notin> reach d (objs s) a"
    by (simp_all add: p)
  from Cons.prems(2) obtain l where l: "py_len (objs s a) = Inr l"
    by (cases "py_len (objs s a)") (simp_all add: p)
  show ?case
  proof (cases "l = n")
    case True
    then have "resize_fields sub cs s (Some n) w = Return m s'"
      using Cons.prems(2) l by (simp add: p)
    from Cons.IH [OF ind this] show ?thesis using l True by (simp add: p)
  next
    case False
    define s1 where "s1 = (if w then warn (ResizeWarning field l n) s else s)"
    have s1: "objs s1 = objs s" "logged s1 = logged s @ (if w then [ResizeWarning field l n] else [])"
      by (simp_all add: s1_def warn_def)
    from Cons.prems(2) l False obtain s2 where s2: "obj_resize sub s1 a n = Return () s2"
      and rest: "resize_fields sub cs s2 (Some n) w = Return m s'"
      by (auto simp: p s1_def split: outcome.splits)
    have rs: "resizes n (objs s) (objs s2)"
      using obj_resize_spec(1) [where n=n and s=s1 and a=a, OF spec] s2 by (simp add: s1)
    have lg: "logged s2 = logged s1"
      using obj_resize_spec(3) [where n=n and s=s1 and a=a, OF spec] s2 by simp
    have same: "objs s2 c = objs s c" if "c \<in> snd ` set cs" for c
      using obj_resize_frame [OF fr, of c s1 a n] sep that s2 by (simp add: s1)
    have ind2: "independent d (objs s2) cs"
      using ind independent_cong [of d "objs s2" "objs s" cs] resizes_reach [OF rs] by simp
    have ex2: "expected_warnings (objs s2) n cs = expected_warnings (objs s) n cs"
      using same by (rule expected_warnings_cong)
    from Cons.IH [OF ind2 rest] show ?thesis
      using l False lg s1(2) ex2 by (simp add: p)
  qed
qed

lemma resize_logged:
  assumes "objs s self = Table t" "independent d (objs s) (cols t)"
    and "resize (Suc d) s self (Some n) w = Return () s'"
  shows "logged s' = logged s @ (if w then expected_warnings (objs s) n (cols t) else [])"
proof -
  from assms(1,3) obtain m s1 where r: "resize_fields (resize d) (cols t) s (Some n) w = Return m s1"
    and s': "s' = set_size s1 self m"
    by (auto split: outcome.splits)
  from resize_fields_logged [OF resize_spec_resize frame_spec_resize assms(2) r]
  show ?thesis by (simp add: s')
qed

lemma resize_Some_no_warn: "logged (final (resize d s a (Some n) False)) = logged s"
  using resize_spec_resize [of n d] unfolding resize_spec_def by blast

lemma resize_no_warn: "logged (final (resize d s self m False)) = logged s"
proof (cases m)
  case (Some n)
  then show ?thesis by (simp add: resize_Some_no_warn)
next
  case None
  show ?thesis
  proof (cases "objs s self")
    case (Table t)
    show ?thesis
    proof (cases "cols t")
      case Nil
      then show ?thesis using None Table by (cases d) simp_all
    next
      case (Cons p rest)
      obtain f a where c: "cols t = (f, a) # rest" using Cons by (cases p) simp
      show ?thesis
      proof (cases "py_len (objs s a)")
        case (Inl e)
        then show ?thesis using None Table c by (cases d) simp_all
      next
        case (Inr l)
        have "resize d s self None False = resize d s self (Some l) False"
          using Table c Inr by (rule resize_None_Cons)
        then show ?thesis
          using None by (simp add: resize_Some_no_warn)
      qed
    qed
  qed (use None in \<open>cases d; simp\<close>)+
qed

lemma new_table_no_warn: "logged (final (new_table d s (Some n) col_dict)) = logged s"
proof (cases "col_dict = None \<or> col_dict = Some []")
  case True
  then show ?thesis by (auto simp: new_table_def init_no_columns)
next
  case False
  then obtain kv kvs where cd: "col_dict = Some (kv # kvs)"
    by (cases col_dict) (auto simp: neq_Nil_conv)
  define s0 where "s0 = s\<lparr>fresh := Suc (fresh s), objs := (objs s)(fresh s := Table \<lparr>size_attr = None, loc = 0,
                  cols = dict_update [] (kv # kvs)\<rparr>)\<rparr>"
  have "logged (final (resize d s0 (fresh s) (Some n) False)) = logged s0"
    by (rule resize_no_warn)
  then show ?thesis
    by (cases "resize d s0 (fresh s) (Some n) False")
       (simp_all add: new_table_def init_def cd s0_def)
qed

lemma independent_cong_cols:
  "(\<And>a. a \<in> snd ` set cs \<Longrightarrow> reach d h' a = reach d h a) \<Longrightarrow> independent d h' cs = independent d h cs"
  by (induction cs) auto

lemma update_fresh_key: "k \<notin> fst ` set al \<Longrightarrow> AList.update k v al = al @ [(k, v)]"
  by (induction al) auto

lemma dict_update_append:
  "distinct (map fst (al @ kvs)) \<Longrightarrow> dict_update al kvs = al @ kvs"
proof (induction kvs arbitrary: al)
  case Nil
  show ?case by (simp add: dict_update_def)
next
  case (Cons kv kvs)
  obtain k v where kv: "kv = (k, v)" by (cases kv)
  have k: "k \<notin> fst ` set al" using Cons.prems by (auto simp: kv)
  have "dict_update al (kv # kvs) = dict_update (al @ [(k, v)]) kvs"
    by (simp add: dict_update_def kv update_fresh_key [OF k])
  also have "\<dots> = (al @ [(k, v)]) @ kvs"
    using Cons.prems by (intro Cons.IH) (simp add: kv)
  finally show ?case by (simp add: kv)
qed

lemma dict_update_distinct: "distinct (map fst kvs) \<Longrightarrow> dict_update [] kvs = kvs"
  using dict_update_append [of "[]" kvs] by simp

lemma reach_upd: "x \<notin> reach d h a \<Longrightarrow> reach d (h(x := ob)) a = reach d h a"
proof (induction d arbitrary: a)
  case 0
  show ?case by simp
next
  case (Suc d)
  have xa: "x \<noteq> a" using Suc.prems by auto
  have IH: "reach d (h(x := ob)) c = reach d h c" if "c \<in> snd ` set (cols_of (h a))" for c
    using Suc.prems that by (intro Suc.IH) auto
  have "(\<Union>c \<in> snd ` set (cols_of (h a)). reach d (h(x := ob)) c) =
        (\<Union>c \<in> snd ` set (cols_of (h a)). reach d h c)"
    using IH by blast
  moreover have "(h(x := ob)) a = h a" using xa by simp
  ultimately show ?case unfolding reach.simps by simp
qed

lemma init_logged:
  assumes dist: "distinct (map fst cd)" and cd: "cd = (f, a) # rest"
    and ind: "independent d (objs s) cd"
    and new: "self \<notin> (\<Union>c \<in> snd ` set cd. reach d (objs s) c)"
    and r: "init (Suc d) s self None (Some cd) = Return () s'"
  shows "\<exists>l. py_len (objs s a) = Inr l \<and> logged s' = logged s @ expected_warnings (objs s) l cd"
proof -
  let ?t = "\<lparr>size_attr = None, loc = 0, cols = cd\<rparr>"
  define s0 where "s0 = s\<lparr>objs := (objs s)(self := Table ?t)\<rparr>"
  have o0: "objs s0 self = Table ?t" "logged s0 = logged s" by (simp_all add: s0_def)
  have du: "dict_update [] ((f, a) # rest) = cd"
    using dict_update_distinct [OF dist] by (simp add: cd)
  have "init (Suc d) s self None (Some cd) =
        (case resize (Suc d) s0 self None True of
           Raise e s' \<Rightarrow> Raise e s'
         | Return u s1 \<Rightarrow> Return () (set_loc s1 self 0))"
    unfolding init_def s0_def cd Let_def option.case list.case du [unfolded cd] by simp
  with r obtain s1 where r1: "resize (Suc d) s0 self None True = Return () s1"
    and s': "s' = set_loc s1 self 0"
    by (cases "resize (Suc d) s0 self None True") simp_all
  from resize_None_Cons_Return [OF r1 o0(1)] cd
  obtain l where l: "py_len (objs s0 a) = Inr l" and r2: "resize (Suc d) s0 self (Some l) True = Return () s1"
    by auto
  have ne: "c \<noteq> self" if "c \<in> snd ` set cd" for c
    using new that self_in_reach [of c d "objs s"] by blast
  have same: "objs s0 c = objs s c" if "c \<in> snd ` set cd" for c
    using ne [OF that] by (simp add: s0_def)
  have rch: "reach d (objs s0) c = reach d (objs s) c" if "c \<in> snd ` set cd" for c
  proof -
    have "self \<notin> reach d (objs s) c" using new that by blast
    then have "reach d ((objs s)(self := Table ?t)) c = reach d (objs s) c" by (rule reach_upd)
    then show ?thesis by (simp add: s0_def)
  qed
  have ind0: "independent d (objs s0) (cols ?t)"
    using ind independent_cong_cols [of cd d "objs s0" "objs s"] rch by simp
  have "logged s1 = logged s0 @ expected_warnings (objs s0) l cd"
    using resize_logged [OF o0(1) ind0 r2] by simp
  moreover have "expected_warnings (objs s0) l cd = expected_warnings (objs s) l cd"
    using same by (rule expected_warnings_cong)
  moreover have "py_len (objs s a) = Inr l" using l same [of a] by (simp add: cd)
  ultimately show ?thesis by (simp add: s' o0)
qed

text \<open>
  Claim C4, as stated, fails.  In \<open>alias_state\<close> both fields \<^verbatim>\<open>a\<close> and \<^verbatim>\<open>b\<close> have
  length 3, which differs from the target 5, but \<^verbatim>\<open>resize(5, do_warn=True)\<close> warns for
  \<^verbatim>\<open>a\<close> only: when the loop reaches \<^verbatim>\<open>b\<close>, the shared array has been resized already.
  In the same way the constructor, given a first column of length 5 and then the shared
  array under two names, warns once and not twice.
\<close>

theorem resize_warnings_counterexample:
  "expected_warnings (objs alias_state) 5 [(''a'', 1), (''b'', 1)] =
     [ResizeWarning ''a'' 3 5, ResizeWarning ''b'' 3 5] \<and>
   resize (Suc 0) alias_state 0 (Some 5) True =
     Return () (final (resize (Suc 0) alias_state 0 (Some 5) True)) \<and>
   logged (final (resize (Suc 0) alias_state 0 (Some 5) True)) = [ResizeWarning ''a'' 3 5] \<and>
   expected_warnings (objs alias_state) 5 [(''x'', 2), (''a'', 1), (''b'', 1)] =
     [ResizeWarning ''a'' 3 5, ResizeWarning ''b'' 3 5] \<and>
   new_table (Suc 0) alias_state None (Some [(''x'', 2), (''a'', 1), (''b'', 1)]) =
     Return 3 (final (new_table (Suc 0) alias_state None (Some [(''x'', 2), (''a'', 1), (''b'', 1)]))) \<and>
   logged (final (new_table (Suc 0) alias_state None (Some [(''x'', 2), (''a'', 1), (''b'', 1)]))) =
     [ResizeWarning ''a'' 3 5]"
  by (simp add: alias_state_def py_len_def maxsize_def obj_resize_def warn_def new_table_def init_def
      dict_update_def)

text \<open>
  Claim C4, amended.  \<^verbatim>\<open>resize\<close> with \<^verbatim>\<open>do_warn=False\<close> emits no warning.  With
  \<^verbatim>\<open>do_warn=True\<close>, on a table whose columns are \<open>independent\<close> (no column object is
  touched by the resize of a column before it; in particular the columns are distinct
  objects), a call that returns has emitted exactly one warning for each field whose
  length before the call differs from the target size, in the order of the fields; the
  target is \<^verbatim>\<open>new_size\<close>, or the length of the first column when \<^verbatim>\<open>new_size\<close> is
  \<^verbatim>\<open>None\<close>.  Consequently, constructing a table from a non-empty \<^verbatim>\<open>col_dict\<close> of
  independent columns with \<^verbatim>\<open>size=None\<close> warns for every column whose length differs
  from that of the first column, and constructing with an explicit size emits no warning.
\<close>

theorem resize_warnings:
  "logged (final (resize d s self new_size False)) = logged s \<and>
   (\<forall>t s'. objs s self = Table t \<and> independent d (objs s) (cols t) \<and>
           resize (Suc d) s self (Some n) True = Return () s' \<longrightarrow>
      logged s' = logged s @ expected_warnings (objs s) n (cols t)) \<and>
   (\<forall>t s' f a rest. objs s self = Table t \<and> cols t = (f, a) # rest \<and>
           independent d (objs s) (cols t) \<and>
           resize (Suc d) s self None True = Return () s' \<longrightarrow>
      (\<exists>l. py_len (objs s a) = Inr l \<and>
           logged s' = logged s @ expected_warnings (objs s) l (cols t))) \<and>
   (\<forall>x s' f a rest. distinct (map fst cd) \<and> cd = (f, a) # rest \<and>
           independent d (objs s) cd \<and>
           fresh s \<notin> (\<Union>c \<in> snd ` set cd. reach d (objs s) c) \<and>
           new_table (Suc d) s None (Some cd) = Return x s' \<longrightarrow>
      (\<exists>l. py_len (objs s a) = Inr l \<and>
           logged s' = logged s @ expected_warnings (objs s) l cd)) \<and>
   logged (final (new_table d s (Some n) col_dict)) = logged s"
proof -
  have p2: "logged s' = logged s @ expected_warnings (objs s) m (cols t)"
    if "objs s self = Table t" "independent d (objs s) (cols t)"
      "resize (Suc d) s self (Some m) True = Return () s'" for t s' m
    using resize_logged [OF that] by simp
  have p3: "\<exists>l. py_len (objs s a) = Inr l \<and>
           logged s' = logged s @ expected_warnings (objs s) l (cols t)"
    if t: "objs s self = Table t" and c: "cols t = (f, a) # rest"
      and i: "independent d (objs s) (cols t)"
      and r: "resize (Suc d) s self None True = Return () s'" for t s' f a rest
  proof -
    from resize_None_Cons_Return [OF r t c] obtain l where
      "py_len (objs s a) = Inr l" "resize (Suc d) s self (Some l) True = Return () s'"
      by blast
    then show ?thesis using p2 [OF t i] by blast
  qed
  have p4: "\<exists>l. py_len (objs s a) = Inr l \<and>
           logged s' = logged s @ expected_warnings (objs s) l cd"
    if "distinct (map fst cd)" "cd = (f, a) # rest" "independent d (objs s) cd"
      "fresh s \<notin> (\<Union>c \<in> snd ` set cd. reach d (objs s) c)"
      "new_table (Suc d) s None (Some cd) = Return x s'" for x s' f a rest
  proof -
    from that(5) have "init (Suc d) (s\<lparr>fresh := Suc (fresh s)\<rparr>) (fresh s) None (Some cd) = Return () s'"
      by (auto simp: new_table_def split: outcome.splits)
    from init_logged [OF that(1,2) _ _ this] that(3,4)
    show ?thesis by simp
  qed
  show ?thesis
    using resize_no_warn [of d s self new_size] p2 p3 p4 new_table_no_warn [of d s n col_dict]
    by blast
qed

theorem resize_warnings_witness:
  "logged (final (resize (Suc 0) warn_state 0 (Some 3) False)) = [] \<and>
   (\<exists>s'. resize (Suc 0) warn_state 0 (Some 3) True = Return () s' \<and>
         logged s' = [ResizeWarning ''b'' 5 3, ResizeWarning ''c'' 1 3]) \<and>
   (\<exists>s'. resize (Suc 0) warn_state 0 None True = Return () s' \<and>
         logged s' = [ResizeWarning ''b'' 5 3, ResizeWarning ''c'' 1 3]) \<and>
   (\<exists>x s'. new_table (Suc 0) warn_state None (Some [(''a'', 1), (''b'', 2), (''c'', 3)]) = Return x s' \<and>
         logged s' = [ResizeWarning ''b'' 5 3, ResizeWarning ''c'' 1 3]) \<and>
   logged (final (new_table (Suc 0) warn_state (Some 3) (Some [(''a'', 1), (''b'', 2), (''c'', 3)]))) = []"
proof -
  let ?cs = "[(''a'', 1), (''b'', 2), (''c'', 3)] :: (string \<times> addr) list"
  let ?t = "\<lparr>size_attr = Some 3, loc = 0, cols = ?cs\<rparr>"
  note W = resize_warnings [where s=warn_state and self=0 and n=3 and cd="?cs" and new_size="Some 3"
      and col_dict="Some ?cs"]
  have t: "objs warn_state 0 = Table ?t" by (simp add: warn_state_def)
  have i: "independent 0 (objs warn_state) ?cs" by simp
  have e: "expected_warnings (objs warn_state) 3 ?cs = [ResizeWarning ''b'' 5 3, ResizeWarning ''c'' 1 3]"
    by (simp add: warn_state_def py_len_def maxsize_def)
  have l: "py_len (objs warn_state 1) = Inr 3" by (simp add: warn_state_def py_len_def maxsize_def)
  have lg: "logged warn_state = []" by (simp add: warn_state_def)
  have f: "fresh warn_state \<notin> (\<Union>c \<in> snd ` set ?cs. reach 0 (objs warn_state) c)"
    by (simp add: warn_state_def)
  have r2: "\<exists>s'. resize (Suc 0) warn_state 0 (Some 3) True = Return () s'"
    by (simp add: warn_state_def py_len_def maxsize_def obj_resize_def warn_def)
  have r3: "\<exists>s'. resize (Suc 0) warn_state 0 None True = Return () s'"
    by (simp add: warn_state_def py_len_def maxsize_def obj_resize_def warn_def)
  have r4: "\<exists>x s'. new_table (Suc 0) warn_state None (Some ?cs) = Return x s'"
    by (simp add: warn_state_def new_table_def init_def dict_update_def py_len_def maxsize_def obj_resize_def warn_def)
  have c1: "logged (final (resize (Suc 0) warn_state 0 (Some 3) False)) = []"
    using W [where d="Suc 0", THEN conjunct1] lg by simp
  have c2: "\<exists>s'. resize (Suc 0) warn_state 0 (Some 3) True = Return () s' \<and>
         logged s' = [ResizeWarning ''b'' 5 3, ResizeWarning ''c'' 1 3]"
    using W [where d=0, THEN conjunct2, THEN conjunct1] r2 t i e lg by fastforce
  have c3: "\<exists>s'. resize (Suc 0) warn_state 0 None True = Return () s' \<and>
         logged s' = [ResizeWarning ''b'' 5 3, ResizeWarning ''c'' 1 3]"
  proof -
    from r3 obtain s' where s': "resize (Suc 0) warn_state 0 None True = Return () s'" by blast
    from W [where d=0, THEN conjunct2, THEN conjunct2, THEN conjunct1, rule_format, of ?t "''a''" 1 "[(''b'', 2), (''c'', 3)]" s']
    obtain l' where "py_len (objs warn_state 1) = Inr l'"
      "logged s' = logged warn_state @ expected_warnings (objs warn_state) l' ?cs"
      using t i s' by auto
    then show ?thesis using s' l e lg by auto
  qed
  have c4: "\<exists>x s'. new_table (Suc 0) warn_state None (Some ?cs) = Return x s' \<and>
         logged s' = [ResizeWarning ''b'' 5 3, ResizeWarning ''c'' 1 3]"
  proof -
    from r4 obtain x s' where s': "new_table (Suc 0) warn_state None (Some ?cs) = Return x s'" by blast
    from W [where d=0, THEN conjunct2, THEN conjunct2, THEN conjunct2, THEN conjunct1, rule_format, of "''a''" 1 "[(''b'', 2), (''c'', 3)]" x s']
    obtain l' where "py_len (objs warn_state 1) = Inr l'"
      "logged s' = logged warn_state @ expected_warnings (objs warn_state) l' ?cs"
      using i f s' by auto
    then show ?thesis using s' l e lg by auto
  qed
  have c5: "logged (final (new_table (Suc 0) warn_state (Some 3) (Some ?cs))) = []"
    using W [where d="Suc 0", THEN conjunct2, THEN conjunct2, THEN conjunct2, THEN conjunct2] lg by simp
  show ?thesis using c1 c2 c3 c4 c5 by (intro conjI)
qed

section \<open>Evaluating expressions\<close>

lemma new_table_no_columns:
  "new_table d s size_arg None =
   Return (fresh s)
     (s\<lparr>objs := (objs s)(fresh s := Table \<lparr>size_attr = Some (case size_arg of None \<Rightarrow> 1024 | Some n \<Rightarrow> n),
                                          loc = 0, cols = []\<rparr>),
        fresh := Suc (fresh s)\<rparr>)"
  by (simp add: new_table_def init_no_columns)

lemma reach_flat:
  assumes "\<forall>c \<in> snd ` set (cols_of (h a)). cols_of (h c) = []"
  shows "reach d h a \<subseteq> insert a (snd ` set (cols_of (h a)))"
proof (cases d)
  case 0
  then show ?thesis by simp
next
  case (Suc d')
  have "reach d' h c = {c}" if "c \<in> snd ` set (cols_of (h a))" for c
    using assms that by (cases d') auto
  then show ?thesis by (auto simp: Suc)
qed

lemma add_field_frame:
  assumes "objs s self = Table t" "add_field d s self name ob u w = Return () s'"
    and "b \<notin> reach d (objs (struct_add_field s self name ob)) self"
  shows "objs s' b = objs s b"
proof -
  have bs: "b \<noteq> self" using assms(3) by auto
  then have o: "objs (struct_add_field s self name ob) b = objs s b"
    using assms(1) by (simp add: struct_add_field_objs)
  from assms(2) show ?thesis
  proof (cases rule: add_field_Return_cases)
    case (1 t0 l)
    then show ?thesis using o by simp
  next
    case (2 t0 l)
    have "objs (final (resize d (struct_add_field s self name ob) self
                (if u then Some l else size_attr t0) False)) b =
          objs (struct_add_field s self name ob) b"
      using assms(3) by (rule resize_frame)
    then show ?thesis using o unfolding 2(5) by simp
  qed
qed

lemma resizable_Array: "h c = Array xs \<Longrightarrow> resizable d h c"
  by (cases d) simp_all

lemma resizes_Array: "h c = Array ys \<Longrightarrow> resizes n h h' \<Longrightarrow> \<exists>zs. h' c = Array zs"
  using resizes_at [of n h h' c] by (auto simp: resized_to_def)

lemma eval_step:
  assumes inv: "out_table s out n ks" and v: "v \<notin> set ks"
    and s1: "s1 = s\<lparr>objs := (objs s)(fresh s := Array xs), fresh := Suc (fresh s)\<rparr>"
  shows "add_field d s1 out v (fresh s) False w = Return () s2 \<Longrightarrow>
           out_table s2 out n (ks @ [v]) \<and> (\<forall>a<out. objs s2 a = objs s a) \<and> fresh s2 = Suc (fresh s)"
    and "valid_len n \<Longrightarrow> int (length xs) = n \<Longrightarrow> \<exists>s2. add_field d s1 out v (fresh s) False w = Return () s2"
proof -
  from inv obtain t where lt: "out < fresh s" and t: "objs s out = Table t" "size_attr t = Some n"
    "loc t = 0" "map fst (cols t) = ks"
    and old: "\<forall>c \<in> snd ` set (cols t). out < c \<and> c < fresh s \<and> (\<exists>ys. objs s c = Array ys \<and> int (length ys) = n)"
    unfolding out_table_def by blast
  let ?arr = "fresh s"
  let ?t2 = "t\<lparr>cols := AList.update v ?arr (cols t)\<rparr>"
  define h where "h = (objs s1)(out := Table ?t2)"
  have t1: "objs s1 out = Table t" using lt t(1) by (simp add: s1)
  have "v \<notin> fst ` set (cols t)" using v unfolding t(4) [symmetric] by simp
  then have c2: "cols ?t2 = cols t @ [(v, ?arr)]"
    by (simp add: update_fresh_key)
  have sa: "objs (struct_add_field s1 out v ?arr) = h"
    unfolding h_def using t1 by (rule struct_add_field_objs)
  have hout: "h out = Table ?t2" by (simp add: h_def)
  have colsh: "cols_of (h out) = cols ?t2" by (simp add: cols_of_def h_def)
  have arrs: "\<exists>ys. h c = Array ys" "out < c" "c < Suc (fresh s)" if "c \<in> snd ` set (cols ?t2)" for c
  proof -
    from that have "c = ?arr \<or> c \<in> snd ` set (cols t)" unfolding c2 by auto
    then show "\<exists>ys. h c = Array ys" "out < c" "c < Suc (fresh s)"
      using old lt by (auto simp: s1 h_def)
  qed
  show "\<exists>s2. add_field d s1 out v ?arr False w = Return () s2" if n0: "valid_len n" and xn: "int (length xs) = n"
  proof -
    have l: "py_len (objs s1 ?arr) = Inr n"
      using n0 xn by (intro py_len_dunder) (simp_all add: s1)
    have h: "hasattr_len (objs s1 ?arr)" by (simp add: s1 hasattr_len_def)
    show ?thesis using l t(2) by (simp add: add_field_unfold [OF t1 h])
  qed
  show "out_table s2 out n (ks @ [v]) \<and> (\<forall>a<out. objs s2 a = objs s a) \<and> fresh s2 = Suc (fresh s)"
    if r: "add_field d s1 out v ?arr False w = Return () s2"
  proof -
    note A = add_field_same_size [OF t1 t(2) r, folded h_def]
    have f2: "fresh s2 = Suc (fresh s)" using A(3) by (simp add: s1)
    have e1: "equal_length (objs s1) t"
      using old t(2) lt by (auto simp: equal_length_def s1)
    from add_field_equal_length [OF t1 e1 r] A(1)
    have len2: "\<forall>c \<in> snd ` set (cols ?t2). dunder_len (objs s2 c) = Some (Some n)"
      using t(2) by (auto simp: equal_length_def)
    have arr2: "\<exists>zs. objs s2 c = Array zs \<and> int (length zs) = n" if "c \<in> snd ` set (cols ?t2)" for c
    proof -
      from arrs(1) [OF that] obtain ys where ys: "h c = Array ys" by blast
      from resizes_Array [OF ys A(2)] have "\<exists>zs. objs s2 c = Array zs" .
      then show ?thesis using len2 that by auto
    qed
    have lt2: "out < fresh s2" using lt f2 by simp
    have cols2: "\<forall>c \<in> snd ` set (cols ?t2). out < c \<and> c < fresh s2 \<and>
                   (\<exists>zs. objs s2 c = Array zs \<and> int (length zs) = n)"
      using arr2 arrs(2,3) unfolding f2 by blast
    have keys2: "map fst (cols ?t2) = ks @ [v]" unfolding c2 using t(4) by simp
    have inv2: "out_table s2 out n (ks @ [v])"
      unfolding out_table_def
    proof (intro conjI exI)
      show "out < fresh s2" by (rule lt2)
      show "objs s2 out = Table ?t2" by (rule A(1))
      show "size_attr ?t2 = Some n" using t(2) by simp
      show "loc ?t2 = 0" using t(3) by simp
      show "map fst (cols ?t2) = ks @ [v]" by (rule keys2)
      show "\<forall>c \<in> snd ` set (cols ?t2). out < c \<and> c < fresh s2 \<and>
                   (\<exists>zs. objs s2 c = Array zs \<and> int (length zs) = n)" by (rule cols2)
    qed
    have flat: "\<forall>c \<in> snd ` set (cols_of (h out)). cols_of (h c) = []"
      unfolding colsh using arrs(1) by (fastforce simp: cols_of_def)
    have fr: "objs s2 a = objs s a" if "a < out" for a
    proof -
      have "a \<notin> snd ` set (cols ?t2)"
      proof
        assume "a \<in> snd ` set (cols ?t2)"
        from arrs(2) [OF this] that show False by simp
      qed
      then have "a \<notin> insert out (snd ` set (cols_of (h out)))"
        unfolding colsh using that by simp
      then have "a \<notin> reach d h out" using reach_flat [OF flat, of d] by blast
      then have "objs s2 a = objs s1 a"
        using add_field_frame [OF t1 r, of a] by (simp add: sa)
      then show ?thesis using that lt by (simp add: s1)
    qed
    show ?thesis using inv2 fr f2 by blast
  qed
qed

lemma eval_loop_post:
  "out_table s out n ks \<Longrightarrow> distinct (map fst cfg) \<Longrightarrow> set (map fst cfg) \<inter> set ks = {} \<Longrightarrow>
   eval_loop engine d s out df cfg = Return r s' \<Longrightarrow>
   r = out \<and> out_table s' out n (ks @ map fst cfg) \<and> (\<forall>a<out. objs s' a = objs s a)"
proof (induction cfg arbitrary: s ks df)
  case Nil
  then show ?case by simp
next
  case (Cons p cfg)
  obtain v sp where p: "p = (v, sp)" by (cases p)
  have "\<exists>df' xs. engine df (v @ '' = '' @ expression sp) (parameters sp) = Inr (df', xs)"
  proof (cases "engine df (v @ '' = '' @ expression sp) (parameters sp)")
    case (Inl e)
    then show ?thesis using Cons.prems(4) by (simp add: p)
  next
    case (Inr b)
    then show ?thesis by (cases b) simp
  qed
  then obtain df' xs where e: "engine df (v @ '' = '' @ expression sp) (parameters sp) = Inr (df', xs)"
    by blast
  define s1 where "s1 = s\<lparr>objs := (objs s)(fresh s := Array xs), fresh := Suc (fresh s)\<rparr>"
  have al: "alloc s (Array xs) = (fresh s, s1)" by (simp add: alloc_def s1_def)
  from Cons.prems(4) e al obtain s2 where
    s2: "add_field d s1 out v (fresh s) False True = Return () s2"
    and rest: "eval_loop engine d s2 out df' cfg = Return r s'"
    by (auto simp: p add_column_def split: outcome.splits)
  have v: "v \<notin> set ks" using Cons.prems(3) by (auto simp: p)
  from eval_step(1) [OF Cons.prems(1) v s1_def s2]
  have inv2: "out_table s2 out n (ks @ [v])" and fr2: "\<forall>a<out. objs s2 a = objs s a"
    by blast+
  have d2: "distinct (map fst cfg)" "set (map fst cfg) \<inter> set (ks @ [v]) = {}"
    using Cons.prems(2,3) by (auto simp: p)
  from Cons.IH [OF inv2 d2 rest] fr2 show ?case by (simp add: p)
qed

lemma eval_loop_total:
  "out_table s out n ks \<Longrightarrow> distinct (map fst cfg) \<Longrightarrow> set (map fst cfg) \<inter> set ks = {} \<Longrightarrow>
   valid_len n \<Longrightarrow> engine_ok engine n df cfg \<Longrightarrow>
   \<exists>s'. eval_loop engine d s out df cfg = Return out s'"
proof (induction cfg arbitrary: s ks df)
  case Nil
  then show ?case by simp
next
  case (Cons p cfg)
  obtain v sp where p: "p = (v, sp)" by (cases p)
  have "\<exists>df' xs. engine df (v @ '' = '' @ expression sp) (parameters sp) = Inr (df', xs)"
  proof (cases "engine df (v @ '' = '' @ expression sp) (parameters sp)")
    case (Inl e)
    then show ?thesis using Cons.prems(5) by (simp add: p)
  next
    case (Inr b)
    then show ?thesis by (cases b) simp
  qed
  then obtain df' xs where e: "engine df (v @ '' = '' @ expression sp) (parameters sp) = Inr (df', xs)"
    by blast
  have xn: "int (length xs) = n" and ok: "engine_ok engine n df' cfg"
    using Cons.prems(5) e by (simp_all add: p)
  define s1 where "s1 = s\<lparr>objs := (objs s)(fresh s := Array xs), fresh := Suc (fresh s)\<rparr>"
  have al: "alloc s (Array xs) = (fresh s, s1)" by (simp add: alloc_def s1_def)
  have v: "v \<notin> set ks" using Cons.prems(3) by (auto simp: p)
  from eval_step(2) [OF Cons.prems(1) v s1_def Cons.prems(4) xn]
  obtain s2 where s2: "add_field d s1 out v (fresh s) False True = Return () s2" by blast
  from eval_step(1) [OF Cons.prems(1) v s1_def s2]
  have inv2: "out_table s2 out n (ks @ [v])" by blast
  have d2: "distinct (map fst cfg)" "set (map fst cfg) \<inter> set (ks @ [v]) = {}"
    using Cons.prems(2,3) by (auto simp: p)
  from Cons.IH [OF inv2 d2 Cons.prems(4) ok]
  obtain s' where "eval_loop engine d s2 out df' cfg = Return out s'" by blast
  then show ?case using e al s2 by (simp add: p add_column_def)
qed

text \<open>
  Claim C6, as stated, fails.  The second table of \<open>undefined_size_state\<close> has no column
  (so all its columns carry an \<^verbatim>\<open>nda\<close>) and size \<^verbatim>\<open>None\<close>.  \<^verbatim>\<open>eval\<close> with an empty
  \<^verbatim>\<open>expr_config\<close> returns a new table built by \<^verbatim>\<open>Table(size=None)\<close>, whose size is 1024
  and not the size of the input table.
\<close>

theorem eval_output_counterexample:
  "objs undefined_size_state 1 = Table \<lparr>size_attr = None, loc = 0, cols = []\<rparr> \<and>
   eval idle_engine 0 undefined_size_state 1 [] =
     Return 2 (undefined_size_state
                \<lparr>objs := (objs undefined_size_state)(2 := Table \<lparr>size_attr = Some 1024, loc = 0, cols = []\<rparr>),
                 fresh := 3\<rparr>)"
  by (simp add: undefined_size_state_def eval_def get_dataframe_def keys_def new_table_no_columns)

text \<open>
  Claim C6, amended.  For a table whose size is an integer \<open>n\<close> and an \<^verbatim>\<open>expr_config\<close>
  (a dictionary: its keys are distinct), an \<^verbatim>\<open>eval\<close> that returns gives a new table,
  distinct from \<^verbatim>\<open>self\<close>, of size \<open>n\<close>, whose column names are the keys of
  \<^verbatim>\<open>expr_config\<close> in their order, each column an \<^verbatim>\<open>Array\<close> of length \<open>n\<close>; no object
  that existed before the call is changed, so the input table keeps its columns, size and
  \<^verbatim>\<open>loc\<close>.  The call returns when \<open>n\<close> is a valid length (from 0 to \<^verbatim>\<open>sys.maxsize\<close>),
  every column of the table carries an \<^verbatim>\<open>nda\<close>, all of one length, and the engine
  evaluates every block of \<^verbatim>\<open>expr_config\<close>, on the frame of the table as the blocks
  before it have left it, to \<open>n\<close> values.
\<close>

theorem eval_output:
  assumes "objs s self = Table t" and "size_attr t = Some n" and "self < fresh s"
    and "distinct (map fst expr_config)"
  shows "(\<forall>out s'. eval engine d s self expr_config = Return out s' \<longrightarrow>
            out = fresh s \<and> out \<noteq> self \<and>
            (\<exists>t'. objs s' out = Table t' \<and> size_attr t' = Some n \<and>
                  map fst (cols t') = map fst expr_config \<and>
                  (\<forall>c \<in> snd ` set (cols t'). \<exists>xs. objs s' c = Array xs \<and> int (length xs) = n)) \<and>
            (\<forall>a < fresh s. objs s' a = objs s a) \<and> objs s' self = Table t) \<and>
         (\<forall>m. valid_len n \<and>
              (\<forall>col \<in> set (keys t). \<exists>xs. column_nda s self col = Some xs \<and> length xs = m) \<and>
              (\<forall>df. get_dataframe s self None = Return df s \<longrightarrow> engine_ok engine n df expr_config) \<longrightarrow>
            (\<exists>out s'. eval engine d s self expr_config = Return out s'))"
proof -
  let ?out = "fresh s"
  define s2 where "s2 = s\<lparr>objs := (objs s)(?out := Table \<lparr>size_attr = Some n, loc = 0, cols = []\<rparr>),
                           fresh := Suc ?out\<rparr>"
  have nt: "new_table d s (size_attr t) None = Return ?out s2"
    by (simp add: new_table_no_columns assms(2) s2_def)
  have inv: "out_table s2 ?out n []" by (simp add: out_table_def s2_def)
  have below: "objs s2 a = objs s a" if "a < ?out" for a using that by (simp add: s2_def)
  have unfold: "eval engine d s self expr_config = eval_loop engine d s2 ?out df expr_config"
    if "get_dataframe s self None = Return df s" for df
    using that assms(1) nt by (simp add: eval_def)
  have part1: "out = ?out \<and> out \<noteq> self \<and>
            (\<exists>t'. objs s' out = Table t' \<and> size_attr t' = Some n \<and>
                  map fst (cols t') = map fst expr_config \<and>
                  (\<forall>c \<in> snd ` set (cols t'). \<exists>xs. objs s' c = Array xs \<and> int (length xs) = n)) \<and>
            (\<forall>a < ?out. objs s' a = objs s a) \<and> objs s' self = Table t"
    if r: "eval engine d s self expr_config = Return out s'" for out s'
  proof -
    from r obtain df s1 where g: "get_dataframe s self None = Return df s1"
      by (cases "get_dataframe s self None") (simp_all add: eval_def)
    have "s1 = s" using get_dataframe_final [of s self None] g by simp
    with g r unfold have l: "eval_loop engine d s2 ?out df expr_config = Return out s'" by simp
    from eval_loop_post [OF inv assms(4) _ l]
    have o: "out = ?out" and inv': "out_table s' ?out n (map fst expr_config)"
      and fr: "\<forall>a < ?out. objs s' a = objs s2 a"
      by simp_all
    from inv' obtain t' where "objs s' ?out = Table t'" "size_attr t' = Some n"
      "map fst (cols t') = map fst expr_config"
      "\<forall>c \<in> snd ` set (cols t'). \<exists>xs. objs s' c = Array xs \<and> int (length xs) = n"
      unfolding out_table_def by blast
    moreover have "\<forall>a < ?out. objs s' a = objs s a" using fr below by simp
    ultimately show ?thesis using o assms(1,3) by auto
  qed
  have part2: "\<exists>out s'. eval engine d s self expr_config = Return out s'"
    if n0: "valid_len n"
      and nd: "\<forall>col \<in> set (keys t). \<exists>xs. column_nda s self col = Some xs \<and> length xs = m"
      and en: "\<forall>df. get_dataframe s self None = Return df s \<longrightarrow> engine_ok engine n df expr_config"
    for m
  proof -
    have "\<forall>(k, ys) \<in> set ([] :: dataframe). length ys = m" by simp
    from get_dataframe_loop_return [OF nd this] obtain df where
      g: "get_dataframe s self None = Return df s"
      using assms(1) by (auto simp: get_dataframe_def)
    note u = unfold [OF g]
    have ok: "engine_ok engine n df expr_config" using en g by blast
    from eval_loop_total [OF inv assms(4) _ n0 ok, of d]
    obtain s' where "eval_loop engine d s2 ?out df expr_config = Return ?out s'" by auto
    then have "eval engine d s self expr_config = Return ?out s'" using u by simp
    then show ?thesis by blast
  qed
  have c1: "\<forall>out s'. eval engine d s self expr_config = Return out s' \<longrightarrow>
            out = fresh s \<and> out \<noteq> self \<and>
            (\<exists>t'. objs s' out = Table t' \<and> size_attr t' = Some n \<and>
                  map fst (cols t') = map fst expr_config \<and>
                  (\<forall>c \<in> snd ` set (cols t'). \<exists>xs. objs s' c = Array xs \<and> int (length xs) = n)) \<and>
            (\<forall>a < fresh s. objs s' a = objs s a) \<and> objs s' self = Table t"
    by (intro allI impI) (rule part1)
  have c2: "\<forall>m. valid_len n \<and>
              (\<forall>col \<in> set (keys t). \<exists>xs. column_nda s self col = Some xs \<and> length xs = m) \<and>
              (\<forall>df. get_dataframe s self None = Return df s \<longrightarrow> engine_ok engine n df expr_config) \<longrightarrow>
            (\<exists>out s'. eval engine d s self expr_config = Return out s')"
  proof (intro allI impI)
    fix m
    assume a: "valid_len n \<and>
              (\<forall>col \<in> set (keys t). \<exists>xs. column_nda s self col = Some xs \<and> length xs = m) \<and>
              (\<forall>df. get_dataframe s self None = Return df s \<longrightarrow> engine_ok engine n df expr_config)"
    show "\<exists>out s'. eval engine d s self expr_config = Return out s'"
      by (rule part2 [OF a [THEN conjunct1] a [THEN conjunct2, THEN conjunct1]
            a [THEN conjunct2, THEN conjunct2]])
  qed
  from c1 c2 show ?thesis by (intro conjI)
qed

theorem eval_output_witness:
  "\<exists>s' t'. eval broadcast_engine 0 join_state 0
             [(''O1'', \<lparr>expression = ''7'', parameters = None\<rparr>),
              (''O2'', \<lparr>expression = ''O1 - a'', parameters = None\<rparr>)] = Return 5 s' \<and>
          objs s' 5 = Table t' \<and> size_attr t' = Some 3 \<and>
          map fst (cols t') = [''O1'', ''O2''] \<and>
          (\<forall>c \<in> snd ` set (cols t'). \<exists>xs. objs s' c = Array xs \<and> int (length xs) = 3) \<and>
          objs s' 0 = Table \<lparr>size_attr = Some 3, loc = 0, cols = [(''a'', 2)]\<rparr>"
proof -
  let ?t = "\<lparr>size_attr = Some 3, loc = 0, cols = [(''a'', 2)]\<rparr>"
  let ?cfg = "[(''O1'', \<lparr>expression = ''7'', parameters = None\<rparr>),
               (''O2'', \<lparr>expression = ''O1 - a'', parameters = None\<rparr>)]"
  have t: "objs join_state 0 = Table ?t" by (simp add: join_state_def)
  have n: "size_attr ?t = Some 3" by simp
  have f: "0 < fresh join_state" "fresh join_state = 5" by (simp_all add: join_state_def)
  have dc: "distinct (map fst ?cfg)" by simp
  have v: "valid_len 3" by (simp add: valid_len_def maxsize_def)
  have nd: "\<forall>col \<in> set (keys ?t). \<exists>xs. column_nda join_state 0 col = Some xs \<and> length xs = 3"
    by (simp add: keys_def column_nda_def getitem_def join_state_def)
  have g: "get_dataframe join_state 0 None = Return [(''a'', [Some 1, Some 2, Some 3])] join_state"
    by (simp add: get_dataframe_def keys_def getitem_def df_setitem_def df_rows_def join_state_def)
  have ok: "engine_ok broadcast_engine 3 [(''a'', [Some 1, Some 2, Some 3])] ?cfg"
    by (simp add: broadcast_engine_def df_rows_def)
  have en: "\<forall>df. get_dataframe join_state 0 None = Return df join_state \<longrightarrow>
              engine_ok broadcast_engine 3 df ?cfg"
    using ok by (simp add: g)
  note E = eval_output [OF t n f(1) dc, of broadcast_engine 0]
  have "\<exists>out s'. eval broadcast_engine 0 join_state 0 ?cfg = Return out s'"
    using v nd en by (intro E [THEN conjunct2, rule_format, where m = 3]) simp
  then obtain out s' where r: "eval broadcast_engine 0 join_state 0 ?cfg = Return out s'"
    by blast
  from E [THEN conjunct1, rule_format, OF r] have "out = fresh join_state \<and>
      (\<exists>t'. objs s' out = Table t' \<and> size_attr t' = Some 3 \<and>
            map fst (cols t') = map fst ?cfg \<and>
            (\<forall>c \<in> snd ` set (cols t'). \<exists>xs. objs s' c = Array xs \<and> int (length xs) = 3)) \<and>
      objs s' 0 = Table ?t"
    by blast
  then show ?thesis using r f(2) by auto
qed

end
